theory Spec2Isabelle
  imports Complex_Main "HOL-Library.Multiset"
begin

section \<open>Data model\<close>

text \<open>
  A \<open>timestamptz\<close> column holds a count of microseconds since the epoch, in UTC.
  \<open>DATE(t AT TIME ZONE 'UTC')\<close> is the number of the UTC calendar day that holds \<open>t\<close>;
  subtracting an integer from a date gives the date that many days earlier, so a date is
  modelled by its day number.
\<close>

type_synonym timestamptz = int

definition utc_date :: "timestamptz \<Rightarrow> int" where
  "utc_date t = t div 86400000000"

text \<open>
  The rows of the activity tables, with the columns the queries of the repositories read
  (the encrypted contents and the other columns are never read by the worker).
  Identifiers are strings, as the model interfaces of the repository declare them. The
  column \<open>category\<close> of \<open>flip_feel_questions\<close> is declared an enum column; a value of it
  is modelled by its label.
\<close>

record JournalEntry =
  journal_id :: string
  user_id :: string
  is_deleted :: bool
  created_at :: timestamptz

record GratitudeEntry =
  gratitude_id :: string
  user_id :: string
  is_deleted :: bool
  created_at :: timestamptz

record MoodCheckIn =
  check_in_id :: string
  user_id :: string
  checked_in_at :: timestamptz

record FlipFeel =
  flip_feel_id :: string
  user_id :: string
  started_at :: "timestamptz option"
  finished_at :: "timestamptz option"

record FlipFeelResponse =
  response_id :: string
  flip_feel_id :: string
  question_id :: string
  choice_id :: string
  created_at :: timestamptz

record FlipFeelQuestions =
  question_id :: string
  question_text :: string
  category :: string

record activity_db =
  journal_entries :: "JournalEntry list"
  gratitude_entries :: "GratitudeEntry list"
  mood_check_ins :: "MoodCheckIn list"
  flip_feel :: "FlipFeel list"
  flip_feel_responses :: "FlipFeelResponse list"
  flip_feel_questions :: "FlipFeelQuestions list"

text \<open>A row of the grant table: which badge a user holds, and since when.\<close>

record UserBadge =
  user_id :: string
  badge_name :: string
  awarded_at :: timestamptz

section \<open>Asynchronous calls that may throw\<close>

datatype error = QueryFailedError string | TypeError string | SyntaxError string

fun error_message :: "error \<Rightarrow> string" where
  "error_message (QueryFailedError m) = m"
| "error_message (TypeError m) = m"
| "error_message (SyntaxError m) = m"

text \<open>
  The state an invocation runs against: the activity tables (only read here), the grant
  table, the clock, and the behaviour of the storage layer at each of the coming calls:
  the head of \<open>outages\<close> is \<open>Some e\<close> when the next call to the data source throws \<open>e\<close>,
  and an exhausted list means that no further call fails. \<open>grant_log\<close> is ghost state: it
  records every invocation of \<open>grantBadgeByName\<close>, in order, so that statements about which
  grants a pass attempts can be written down; no modelled code reads it.
\<close>

record world =
  activity :: activity_db
  user_badges :: "UserBadge list"
  now :: timestamptz
  outages :: "error option list"
  grant_log :: "(string \<times> string) list"

type_synonym 'a io = "world \<Rightarrow> (error + 'a) \<times> world"

definition pure_io :: "'a \<Rightarrow> 'a io" where
  "pure_io a w = (Inr a, w)"

definition throw_io :: "error \<Rightarrow> 'a io" where
  "throw_io e w = (Inl e, w)"

text \<open>\<open>await m\<close> followed by the rest of the function: a rejected promise ends it.\<close>

definition bind_io :: "'a io \<Rightarrow> ('a \<Rightarrow> 'b io) \<Rightarrow> 'b io" where
  "bind_io m f w = (case m w of (Inl e, w') \<Rightarrow> (Inl e, w') | (Inr a, w') \<Rightarrow> f a w')"

definition then_io :: "unit io \<Rightarrow> 'b io \<Rightarrow> 'b io" where
  "then_io m k = bind_io m (\<lambda>_. k)"

definition try_catch :: "'a io \<Rightarrow> (error \<Rightarrow> 'a io) \<Rightarrow> 'a io" where
  "try_catch m handler w = (case m w of (Inl e, w') \<Rightarrow> handler e w' | (Inr a, w') \<Rightarrow> (Inr a, w'))"

text \<open>One round trip to the data source: it throws when the storage layer is down.\<close>

definition storage_call :: "(world \<Rightarrow> 'a \<times> world) \<Rightarrow> 'a io" where
  "storage_call op w =
     (case outages w of
        [] \<Rightarrow> (case op w of (a, w') \<Rightarrow> (Inr a, w'))
      | Some e # rest \<Rightarrow> (Inl e, w\<lparr>outages := rest\<rparr>)
      | None # rest \<Rightarrow> (case op (w\<lparr>outages := rest\<rparr>) of (a, w') \<Rightarrow> (Inr a, w')))"

text \<open>
  \<open>AppDataSource.query(sql, params)\<close> for a \<open>SELECT\<close> over the activity tables: one round
  trip, after which PostgreSQL either rejects the statement or its parameters with an
  error, which the driver throws as a \<open>QueryFailedError\<close>, or returns the rows.
\<close>

definition AppDataSource_query :: "(activity_db \<Rightarrow> error + 'a) \<Rightarrow> 'a io" where
  "AppDataSource_query q =
     bind_io (storage_call (\<lambda>w. (q (activity w), w)))
       (\<lambda>answer. case answer of Inl e \<Rightarrow> throw_io e | Inr rows \<Rightarrow> pure_io rows)"

text \<open>Whether the next call to the data source throws, and with what.\<close>

definition next_outage :: "world \<Rightarrow> error option" where
  "next_outage w = (case outages w of [] \<Rightarrow> None | x # _ \<Rightarrow> x)"

definition consume :: "world \<Rightarrow> world" where
  "consume w = w\<lparr>outages := tl (outages w)\<rparr>"

text \<open>
  \<open>result[0]?.exists ?? false\<close> and \<open>result[0]?.has_count ?? false\<close>: the single boolean
  column of the first row, and \<open>false\<close> when there is no row.
\<close>

definition first_flag :: "bool list \<Rightarrow> bool" where
  "first_flag result = (case result of [] \<Rightarrow> False | r # _ \<Rightarrow> r)"

text \<open>
  The thresholds \<open>entryCount\<close> and \<open>consecutiveDays\<close> are compared with a \<open>COUNT( * )\<close>, so
  PostgreSQL reads the parameter \<open>$2\<close> as a \<open>bigint\<close>: a value outside the 64-bit range is
  rejected. The message of the rejection quotes the value; one constant stands for it here.
  A threshold is an integer, as every caller in the repository passes one.
\<close>

definition bigint_out_of_range :: error where
  "bigint_out_of_range = QueryFailedError ''value is out of range for type bigint''"

definition with_bigint :: "int \<Rightarrow> (int \<Rightarrow> 'a) \<Rightarrow> error + 'a" where
  "with_bigint n f = (if - (2 ^ 63) \<le> n \<and> n < 2 ^ 63 then Inr (f n) else Inl bigint_out_of_range)"

section \<open>Activity History Store\<close>

subsection \<open>The streak query\<close>

text \<open>
  The four \<open>hasConsecutiveDays\<close> queries share their last three stages word for word.
  \<open>consecutive_days\<close> pairs each distinct date with \<open>date - ROW_NUMBER() OVER (ORDER BY date)\<close>
  (row numbers start at 1); \<open>streak_lengths\<close> groups by that difference and keeps
  \<open>COUNT( * )\<close> and \<open>MAX(date)\<close> of each group; the outer \<open>SELECT EXISTS\<close> returns one row.
\<close>

definition consecutive_days :: "int list \<Rightarrow> (int \<times> int) list" where
  "consecutive_days daily = map (\<lambda>(rn, d). (d, d - int rn)) (enumerate 1 (sort daily))"

definition streak_lengths :: "(int \<times> int) list \<Rightarrow> (nat \<times> int) list" where
  "streak_lengths cd =
     map (\<lambda>g. (length [r \<leftarrow> cd. snd r = g], Max (set [fst r. r \<leftarrow> cd, snd r = g])))
       (remdups (map snd cd))"

definition streak_exists :: "int list \<Rightarrow> int \<Rightarrow> bool list" where
  "streak_exists daily consecutiveDays =
     [[s \<leftarrow> streak_lengths (consecutive_days daily). consecutiveDays \<le> int (fst s)] \<noteq> []]"

subsection \<open>JournalEntryRepository\<close>

definition journal_rows :: "activity_db \<Rightarrow> string \<Rightarrow> JournalEntry list" where
  "journal_rows db uid =
     [e \<leftarrow> journal_entries db. JournalEntry.user_id e = uid \<and> JournalEntry.is_deleted e = False]"

definition JournalEntryRepository_hasFirstEntry_sql ::
  "string \<Rightarrow> activity_db \<Rightarrow> error + bool list" where
  "JournalEntryRepository_hasFirstEntry_sql uid db = Inr [take 1 (journal_rows db uid) \<noteq> []]"

definition JournalEntryRepository_hasFirstEntry :: "string \<Rightarrow> bool io" where
  "JournalEntryRepository_hasFirstEntry uid =
     bind_io (AppDataSource_query (JournalEntryRepository_hasFirstEntry_sql uid))
       (\<lambda>result. pure_io (first_flag result))"

definition journal_daily_entries :: "activity_db \<Rightarrow> string \<Rightarrow> int list" where
  "journal_daily_entries db uid =
     rev (sort (remdups (map (\<lambda>e. utc_date (JournalEntry.created_at e)) (journal_rows db uid))))"

definition JournalEntryRepository_hasConsecutiveDays_sql ::
  "string \<Rightarrow> int \<Rightarrow> activity_db \<Rightarrow> error + bool list" where
  "JournalEntryRepository_hasConsecutiveDays_sql uid consecutiveDays db =
     with_bigint consecutiveDays (streak_exists (journal_daily_entries db uid))"

definition JournalEntryRepository_hasConsecutiveDays :: "string \<Rightarrow> int \<Rightarrow> bool io" where
  "JournalEntryRepository_hasConsecutiveDays uid consecutiveDays =
     bind_io (AppDataSource_query (JournalEntryRepository_hasConsecutiveDays_sql uid consecutiveDays))
       (\<lambda>result. pure_io (first_flag result))"

definition JournalEntryRepository_hasReachedEntryCount_sql ::
  "string \<Rightarrow> int \<Rightarrow> activity_db \<Rightarrow> error + bool list" where
  "JournalEntryRepository_hasReachedEntryCount_sql uid entryCount db =
     with_bigint entryCount (\<lambda>n. [n \<le> int (length (journal_rows db uid))])"

definition JournalEntryRepository_hasReachedEntryCount :: "string \<Rightarrow> int \<Rightarrow> bool io" where
  "JournalEntryRepository_hasReachedEntryCount uid entryCount =
     bind_io (AppDataSource_query (JournalEntryRepository_hasReachedEntryCount_sql uid entryCount))
       (\<lambda>result. pure_io (first_flag result))"

subsection \<open>GratitudeEntryRepository\<close>

definition gratitude_rows :: "activity_db \<Rightarrow> string \<Rightarrow> GratitudeEntry list" where
  "gratitude_rows db uid =
     [e \<leftarrow> gratitude_entries db. GratitudeEntry.user_id e = uid \<and> GratitudeEntry.is_deleted e = False]"

definition GratitudeEntryRepository_hasFirstEntry_sql ::
  "string \<Rightarrow> activity_db \<Rightarrow> error + bool list" where
  "GratitudeEntryRepository_hasFirstEntry_sql uid db = Inr [take 1 (gratitude_rows db uid) \<noteq> []]"

definition GratitudeEntryRepository_hasFirstEntry :: "string \<Rightarrow> bool io" where
  "GratitudeEntryRepository_hasFirstEntry uid =
     bind_io (AppDataSource_query (GratitudeEntryRepository_hasFirstEntry_sql uid))
       (\<lambda>result. pure_io (first_flag result))"

definition GratitudeEntryRepository_hasReachedEntryCount_sql ::
  "string \<Rightarrow> int \<Rightarrow> activity_db \<Rightarrow> error + bool list" where
  "GratitudeEntryRepository_hasReachedEntryCount_sql uid entryCount db =
     with_bigint entryCount (\<lambda>n. [n \<le> int (length (gratitude_rows db uid))])"

definition GratitudeEntryRepository_hasReachedEntryCount :: "string \<Rightarrow> int \<Rightarrow> bool io" where
  "GratitudeEntryRepository_hasReachedEntryCount uid entryCount =
     bind_io (AppDataSource_query (GratitudeEntryRepository_hasReachedEntryCount_sql uid entryCount))
       (\<lambda>result. pure_io (first_flag result))"

definition gratitude_daily_entries :: "activity_db \<Rightarrow> string \<Rightarrow> int list" where
  "gratitude_daily_entries db uid =
     rev (sort (remdups (map (\<lambda>e. utc_date (GratitudeEntry.created_at e)) (gratitude_rows db uid))))"

definition GratitudeEntryRepository_hasConsecutiveDays_sql ::
  "string \<Rightarrow> int \<Rightarrow> activity_db \<Rightarrow> error + bool list" where
  "GratitudeEntryRepository_hasConsecutiveDays_sql uid consecutiveDays db =
     with_bigint consecutiveDays (streak_exists (gratitude_daily_entries db uid))"

definition GratitudeEntryRepository_hasConsecutiveDays :: "string \<Rightarrow> int \<Rightarrow> bool io" where
  "GratitudeEntryRepository_hasConsecutiveDays uid consecutiveDays =
     bind_io (AppDataSource_query (GratitudeEntryRepository_hasConsecutiveDays_sql uid consecutiveDays))
       (\<lambda>result. pure_io (first_flag result))"

subsection \<open>MoodCheckInRepository\<close>

definition mood_daily_checkins :: "activity_db \<Rightarrow> string \<Rightarrow> int list" where
  "mood_daily_checkins db uid =
     rev (sort (remdups (map (\<lambda>c. utc_date (checked_in_at c))
       [c \<leftarrow> mood_check_ins db. MoodCheckIn.user_id c = uid])))"

definition MoodCheckInRepository_hasConsecutiveDays_sql ::
  "string \<Rightarrow> int \<Rightarrow> activity_db \<Rightarrow> error + bool list" where
  "MoodCheckInRepository_hasConsecutiveDays_sql uid consecutiveDays db =
     with_bigint consecutiveDays (streak_exists (mood_daily_checkins db uid))"

definition MoodCheckInRepository_hasConsecutiveDays :: "string \<Rightarrow> int \<Rightarrow> bool io" where
  "MoodCheckInRepository_hasConsecutiveDays uid consecutiveDays =
     bind_io (AppDataSource_query (MoodCheckInRepository_hasConsecutiveDays_sql uid consecutiveDays))
       (\<lambda>result. pure_io (first_flag result))"

subsection \<open>FlipFeelRepository\<close>

definition flip_feel_rows :: "activity_db \<Rightarrow> string \<Rightarrow> FlipFeel list" where
  "flip_feel_rows db uid =
     [f \<leftarrow> flip_feel db. FlipFeel.user_id f = uid \<and> finished_at f \<noteq> None]"

definition FlipFeelRepository_hasFirstEntry_sql ::
  "string \<Rightarrow> activity_db \<Rightarrow> error + bool list" where
  "FlipFeelRepository_hasFirstEntry_sql uid db = Inr [take 1 (flip_feel_rows db uid) \<noteq> []]"

definition FlipFeelRepository_hasFirstEntry :: "string \<Rightarrow> bool io" where
  "FlipFeelRepository_hasFirstEntry uid =
     bind_io (AppDataSource_query (FlipFeelRepository_hasFirstEntry_sql uid))
       (\<lambda>result. pure_io (first_flag result))"

text \<open>
  The category query compares \<open>q.category\<close> with \<open>ANY($3::text[])\<close>. The entity
  \<open>FlipFeelQuestions\<close> declares the column \<open>category\<close> with \<open>type: "enum"\<close>, which is the
  PostgreSQL enum type \<open>flip_feel_questions_category_enum\<close>, and PostgreSQL has no
  operator that compares a value of an enum type with a \<open>text\<close>: it rejects the statement
  when it analyses it, whatever the parameters are and whatever the tables hold.
\<close>

definition operator_does_not_exist :: error where
  "operator_does_not_exist =
     QueryFailedError ''operator does not exist: flip_feel_questions_category_enum = text''"

definition FlipFeelRepository_hasCompletedAllCategories_sql ::
  "string \<Rightarrow> string list \<Rightarrow> activity_db \<Rightarrow> error + bool list" where
  "FlipFeelRepository_hasCompletedAllCategories_sql uid validCategories db =
     Inl operator_does_not_exist"

definition FlipFeelRepository_hasCompletedAllCategories :: "string \<Rightarrow> string list \<Rightarrow> bool io" where
  "FlipFeelRepository_hasCompletedAllCategories uid validCategories =
     bind_io (AppDataSource_query (FlipFeelRepository_hasCompletedAllCategories_sql uid validCategories))
       (\<lambda>result. pure_io (first_flag result))"

definition flip_feel_daily_sessions :: "activity_db \<Rightarrow> string \<Rightarrow> int list" where
  "flip_feel_daily_sessions db uid =
     rev (sort (remdups (map (\<lambda>f. utc_date (the (finished_at f))) (flip_feel_rows db uid))))"

definition FlipFeelRepository_hasConsecutiveDays_sql ::
  "string \<Rightarrow> int \<Rightarrow> activity_db \<Rightarrow> error + bool list" where
  "FlipFeelRepository_hasConsecutiveDays_sql uid consecutiveDays db =
     with_bigint consecutiveDays (streak_exists (flip_feel_daily_sessions db uid))"

definition FlipFeelRepository_hasConsecutiveDays :: "string \<Rightarrow> int \<Rightarrow> bool io" where
  "FlipFeelRepository_hasConsecutiveDays uid consecutiveDays =
     bind_io (AppDataSource_query (FlipFeelRepository_hasConsecutiveDays_sql uid consecutiveDays))
       (\<lambda>result. pure_io (first_flag result))"

section \<open>Values and interfaces of the transport\<close>

text \<open>
  What \<open>JSON.parse\<close> can return. A number is a double; the code only tests it for
  truthiness. The members of a decoded object are listed with each name once.
\<close>

datatype json =
    JNull | JBool bool | JNum real | JStr string | JArr "json list" | JObj "(string \<times> json) list"

text \<open>
  The service as the controller holds it: the four methods of \<open>BadgeWorkerService\<close>.
  Types are erased at run time, so a method receives whatever value the payload carries
  as \<open>userId\<close>; \<open>'w\<close> is the state the methods run against.
\<close>

record 'w BadgeWorkerService =
  journalBadgeWorker :: "json \<Rightarrow> 'w \<Rightarrow> (error + unit) \<times> 'w"
  flipAndFeelBadgeWorker :: "json \<Rightarrow> 'w \<Rightarrow> (error + unit) \<times> 'w"
  moodBadgeWorker :: "json \<Rightarrow> 'w \<Rightarrow> (error + unit) \<times> 'w"
  gratitudeBadgeWorker :: "json \<Rightarrow> 'w \<Rightarrow> (error + unit) \<times> 'w"

text \<open>The Pub/Sub push envelope (\<open>req.body\<close>); an absent member is \<open>None\<close>.\<close>

record PubSubMessage_message =
  data :: "string option"
  messageId :: "string option"
  publishTime :: "string option"

record PubSubMessage =
  message :: "PubSubMessage_message option"
  subscription :: "string option"

text \<open>
  The library functions the controller calls: \<open>Buffer.from(s, 'base64').toString('utf-8')\<close>
  and \<open>JSON.parse\<close>, which throws a \<open>SyntaxError\<close> on a text that is not JSON.
\<close>

record runtime =
  Buffer_from_base64 :: "string \<Rightarrow> string"
  JSON_parse :: "string \<Rightarrow> error + json"

text \<open>
  The answer: the status and the body. The body of the answer to an unknown event type
  interpolates the value of \<open>payload.eventType\<close> into its text; the value is kept as it is.
\<close>

datatype body = ErrorText string | UnknownEventType "json option" | NoContent

datatype response = Response nat body

section \<open>Badge Ledger\<close>

text \<open>
  Modelled from the spec: \<open>BadgesRepository\<close> (\<open>badges.repository.ts\<close>) is imported by the
  service and the router but is not among the sources. Following sections 3 and 4.2 of the
  specification, \<open>getUserBadges\<close> returns the grant records of the user, and
  \<open>grantBadgeByName\<close> inserts a grant record stamped with the current time unless the user
  already holds the badge, in which case it does nothing; the write is one atomic round
  trip to the data source. Each invocation is appended to the ghost \<open>grant_log\<close> first.
\<close>

definition granted :: "UserBadge list \<Rightarrow> string \<Rightarrow> string \<Rightarrow> bool" where
  "granted ledger uid badge =
     ([r \<leftarrow> ledger. UserBadge.user_id r = uid \<and> badge_name r = badge] \<noteq> [])"

definition BadgesRepository_getUserBadges :: "string \<Rightarrow> UserBadge list io" where
  "BadgesRepository_getUserBadges uid =
     storage_call (\<lambda>w. ([r \<leftarrow> user_badges w. UserBadge.user_id r = uid], w))"

definition grant_record :: "string \<Rightarrow> timestamptz \<Rightarrow> string \<Rightarrow> UserBadge" where
  "grant_record uid t badge = \<lparr>UserBadge.user_id = uid, badge_name = badge, awarded_at = t\<rparr>"

definition insert_grant :: "string \<Rightarrow> string \<Rightarrow> world \<Rightarrow> world" where
  "insert_grant uid badge w =
     (if granted (user_badges w) uid badge then w
      else w\<lparr>user_badges := user_badges w @ [grant_record uid (now w) badge]\<rparr>)"

definition BadgesRepository_grantBadgeByName :: "string \<Rightarrow> string \<Rightarrow> unit io" where
  "BadgesRepository_grantBadgeByName uid badge w =
     storage_call (\<lambda>w'. ((), insert_grant uid badge w'))
       (w\<lparr>grant_log := grant_log w @ [(uid, badge)]\<rparr>)"

section \<open>Badge Evaluation Engine\<close>

datatype badge_key =
    JOURNAL_FIRST_ENTRY | JOURNAL_3_STREAK | JOURNAL_7_STREAK
  | JOURNAL_10_ENTRIES | JOURNAL_20_ENTRIES | JOURNAL_30_ENTRIES
  | FLIP_AND_FEEL_FIRST | FLIP_AND_FEEL_ALL_CATEGORIES | FLIP_AND_FEEL_7_STREAK
  | GRATITUDE_FIRST_ENTRY | GRATITUDE_10_ENTRIES | GRATITUDE_25_ENTRIES
  | GRATITUDE_50_ENTRIES | GRATITUDE_100_ENTRIES | GRATITUDE_3_STREAK | GRATITUDE_7_STREAK
  | MOOD_CHECKIN_7_STREAK | MOOD_CHECKIN_14_STREAK

fun badges :: "badge_key \<Rightarrow> string" where
  "badges JOURNAL_FIRST_ENTRY = ''New Beginnings''"
| "badges JOURNAL_3_STREAK = ''Mindful Momentum''"
| "badges JOURNAL_7_STREAK = ''Mind Gardener''"
| "badges JOURNAL_10_ENTRIES = ''Voice of Reflection''"
| "badges JOURNAL_20_ENTRIES = ''Journey Within''"
| "badges JOURNAL_30_ENTRIES = ''Keeper of Insight''"
| "badges FLIP_AND_FEEL_FIRST = ''First Step Inward''"
| "badges FLIP_AND_FEEL_ALL_CATEGORIES = ''Emotional Explorer''"
| "badges FLIP_AND_FEEL_7_STREAK = ''Steady Self-Reflector''"
| "badges GRATITUDE_FIRST_ENTRY = ''Grateful Heart''"
| "badges GRATITUDE_10_ENTRIES = ''Growing Gratitude''"
| "badges GRATITUDE_25_ENTRIES = ''Mindful Appreciator''"
| "badges GRATITUDE_50_ENTRIES = ''Beacon of Gratitude''"
| "badges GRATITUDE_100_ENTRIES = ''Radiant Gratitude''"
| "badges GRATITUDE_3_STREAK = ''Thankful Thinker''"
| "badges GRATITUDE_7_STREAK = ''Appreciation Advocate''"
| "badges MOOD_CHECKIN_7_STREAK = ''Steady Observer''"
| "badges MOOD_CHECKIN_14_STREAK = ''Balanced Mind Keeper''"

text \<open>
  Every check of a worker has the same shape:
  \<^verbatim>\<open>if (!badgeNames.has(badge)) { if (await qualifies) { await grantBadgeByName(userId, badge); } }\<close>
\<close>

definition award_unless_held :: "string set \<Rightarrow> string \<Rightarrow> string \<Rightarrow> bool io \<Rightarrow> unit io" where
  "award_unless_held badgeNames userId badge qualifies =
     (if badge \<notin> badgeNames
      then bind_io qualifies
             (\<lambda>ok. if ok then BadgesRepository_grantBadgeByName userId badge else pure_io ())
      else pure_io ())"

definition validCategories :: "string list" where
  "validCategories =
     [''school'', ''opposite_sex'', ''peers'', ''family'', ''crises'', ''emotions'', ''recreation'']"

definition journalBadgeWorker :: "string \<Rightarrow> unit io" where
  "journalBadgeWorker userId =
     try_catch
       (bind_io (BadgesRepository_getUserBadges userId) (\<lambda>userBadges.
          let badgeNames = set (map badge_name userBadges) in
          then_io (award_unless_held badgeNames userId (badges JOURNAL_FIRST_ENTRY)
                     (JournalEntryRepository_hasFirstEntry userId))
         (then_io (award_unless_held badgeNames userId (badges JOURNAL_3_STREAK)
                     (JournalEntryRepository_hasConsecutiveDays userId 3))
         (then_io (award_unless_held badgeNames userId (badges JOURNAL_7_STREAK)
                     (JournalEntryRepository_hasConsecutiveDays userId 7))
         (then_io (award_unless_held badgeNames userId (badges JOURNAL_10_ENTRIES)
                     (JournalEntryRepository_hasReachedEntryCount userId 10))
         (then_io (award_unless_held badgeNames userId (badges JOURNAL_20_ENTRIES)
                     (JournalEntryRepository_hasReachedEntryCount userId 20))
                  (award_unless_held badgeNames userId (badges JOURNAL_30_ENTRIES)
                     (JournalEntryRepository_hasReachedEntryCount userId 30))))))))
       (\<lambda>error. throw_io error)"

definition flipAndFeelBadgeWorker :: "string \<Rightarrow> unit io" where
  "flipAndFeelBadgeWorker userId =
     try_catch
       (bind_io (BadgesRepository_getUserBadges userId) (\<lambda>userBadges.
          let badgeNames = set (map badge_name userBadges) in
          then_io (award_unless_held badgeNames userId (badges FLIP_AND_FEEL_FIRST)
                     (FlipFeelRepository_hasFirstEntry userId))
         (then_io (award_unless_held badgeNames userId (badges FLIP_AND_FEEL_ALL_CATEGORIES)
                     (FlipFeelRepository_hasCompletedAllCategories userId validCategories))
                  (award_unless_held badgeNames userId (badges FLIP_AND_FEEL_7_STREAK)
                     (FlipFeelRepository_hasConsecutiveDays userId 7)))))
       (\<lambda>error. throw_io error)"

definition moodBadgeWorker :: "string \<Rightarrow> unit io" where
  "moodBadgeWorker userId =
     try_catch
       (bind_io (BadgesRepository_getUserBadges userId) (\<lambda>userBadges.
          let badgeNames = set (map badge_name userBadges) in
          then_io (award_unless_held badgeNames userId (badges MOOD_CHECKIN_7_STREAK)
                     (MoodCheckInRepository_hasConsecutiveDays userId 7))
                  (award_unless_held badgeNames userId (badges MOOD_CHECKIN_14_STREAK)
                     (MoodCheckInRepository_hasConsecutiveDays userId 14))))
       (\<lambda>error. throw_io error)"

definition gratitudeBadgeWorker :: "string \<Rightarrow> unit io" where
  "gratitudeBadgeWorker userId =
     try_catch
       (bind_io (BadgesRepository_getUserBadges userId) (\<lambda>userBadges.
          let badgeNames = set (map badge_name userBadges) in
          then_io (award_unless_held badgeNames userId (badges GRATITUDE_FIRST_ENTRY)
                     (GratitudeEntryRepository_hasFirstEntry userId))
         (then_io (award_unless_held badgeNames userId (badges GRATITUDE_10_ENTRIES)
                     (GratitudeEntryRepository_hasReachedEntryCount userId 10))
         (then_io (award_unless_held badgeNames userId (badges GRATITUDE_25_ENTRIES)
                     (GratitudeEntryRepository_hasReachedEntryCount userId 25))
         (then_io (award_unless_held badgeNames userId (badges GRATITUDE_50_ENTRIES)
                     (GratitudeEntryRepository_hasReachedEntryCount userId 50))
         (then_io (award_unless_held badgeNames userId (badges GRATITUDE_100_ENTRIES)
                     (GratitudeEntryRepository_hasReachedEntryCount userId 100))
         (then_io (award_unless_held badgeNames userId (badges GRATITUDE_3_STREAK)
                     (GratitudeEntryRepository_hasConsecutiveDays userId 3))
                  (award_unless_held badgeNames userId (badges GRATITUDE_7_STREAK)
                     (GratitudeEntryRepository_hasConsecutiveDays userId 7)))))))))
       (\<lambda>error. throw_io error)"

section \<open>The specification's vocabulary\<close>

text \<open>
  The definitions of this section follow the words of the specification, not the code;
  the theorems below compare the two.
\<close>

datatype ActivityDomain = Journal | FlipAndFeel | MoodCheckIn | Gratitude

text \<open>The pass that an event of each domain triggers.\<close>

fun badgeWorker :: "ActivityDomain \<Rightarrow> string \<Rightarrow> unit io" where
  "badgeWorker Journal = journalBadgeWorker"
| "badgeWorker FlipAndFeel = flipAndFeelBadgeWorker"
| "badgeWorker MoodCheckIn = moodBadgeWorker"
| "badgeWorker Gratitude = gratitudeBadgeWorker"

text \<open>
  The UTC calendar date of every qualifying record of a user, one element per record:
  soft-deleted journal and gratitude entries do not qualify, a reflection session
  qualifies once it has a completion timestamp and is dated by it.
\<close>

fun qualifying_dates :: "ActivityDomain \<Rightarrow> activity_db \<Rightarrow> string \<Rightarrow> int list" where
  "qualifying_dates Journal db uid =
     [utc_date (JournalEntry.created_at e). e \<leftarrow> journal_entries db,
        JournalEntry.user_id e = uid, \<not> JournalEntry.is_deleted e]"
| "qualifying_dates Gratitude db uid =
     [utc_date (GratitudeEntry.created_at e). e \<leftarrow> gratitude_entries db,
        GratitudeEntry.user_id e = uid, \<not> GratitudeEntry.is_deleted e]"
| "qualifying_dates MoodCheckIn db uid =
     [utc_date (checked_in_at c). c \<leftarrow> mood_check_ins db, MoodCheckIn.user_id c = uid]"
| "qualifying_dates FlipAndFeel db uid =
     [utc_date t. f \<leftarrow> flip_feel db, FlipFeel.user_id f = uid,
        t \<leftarrow> (case finished_at f of None \<Rightarrow> [] | Some t \<Rightarrow> [t])]"

text \<open>
  A run of \<open>k\<close> calendar days with no gap, each holding a qualifying record: some day \<open>d\<close>
  of the set is followed by \<open>d + 1\<close>, ..., \<open>d + k - 1\<close>.
\<close>

definition has_run :: "int set \<Rightarrow> int \<Rightarrow> bool" where
  "has_run days k = (\<exists>d\<in>days. \<forall>t\<in>{0..<k}. d + t \<in> days)"

text \<open>
  The categories of the questions answered in the completed sessions of a user.
\<close>

definition completed_categories :: "activity_db \<Rightarrow> string \<Rightarrow> string set" where
  "completed_categories db uid =
     set [category q. f \<leftarrow> flip_feel db, FlipFeel.user_id f = uid, finished_at f \<noteq> None,
            r \<leftarrow> flip_feel_responses db, FlipFeelResponse.flip_feel_id r = FlipFeel.flip_feel_id f,
            q \<leftarrow> flip_feel_questions db, FlipFeelQuestions.question_id q = FlipFeelResponse.question_id r]"

datatype predicate =
    FirstEntry | EntryCount int | ConsecutiveDays int | AllCategories "string list"

fun holds :: "ActivityDomain \<Rightarrow> predicate \<Rightarrow> string \<Rightarrow> activity_db \<Rightarrow> bool" where
  "holds d FirstEntry uid db = (qualifying_dates d db uid \<noteq> [])"
| "holds d (EntryCount n) uid db = (n \<le> int (length (qualifying_dates d db uid)))"
| "holds d (ConsecutiveDays k) uid db = has_run (set (qualifying_dates d db uid)) k"
| "holds d (AllCategories cs) uid db = (set cs \<subseteq> completed_categories db uid)"

text \<open>The rule catalogue of section 4.3, in the order in which each worker checks it.\<close>

fun catalogue :: "ActivityDomain \<Rightarrow> (badge_key \<times> predicate) list" where
  "catalogue Journal =
     [(JOURNAL_FIRST_ENTRY, FirstEntry),
      (JOURNAL_3_STREAK, ConsecutiveDays 3), (JOURNAL_7_STREAK, ConsecutiveDays 7),
      (JOURNAL_10_ENTRIES, EntryCount 10), (JOURNAL_20_ENTRIES, EntryCount 20),
      (JOURNAL_30_ENTRIES, EntryCount 30)]"
| "catalogue FlipAndFeel =
     [(FLIP_AND_FEEL_FIRST, FirstEntry),
      (FLIP_AND_FEEL_ALL_CATEGORIES, AllCategories validCategories),
      (FLIP_AND_FEEL_7_STREAK, ConsecutiveDays 7)]"
| "catalogue MoodCheckIn =
     [(MOOD_CHECKIN_7_STREAK, ConsecutiveDays 7), (MOOD_CHECKIN_14_STREAK, ConsecutiveDays 14)]"
| "catalogue Gratitude =
     [(GRATITUDE_FIRST_ENTRY, FirstEntry),
      (GRATITUDE_10_ENTRIES, EntryCount 10), (GRATITUDE_25_ENTRIES, EntryCount 25),
      (GRATITUDE_50_ENTRIES, EntryCount 50), (GRATITUDE_100_ENTRIES, EntryCount 100),
      (GRATITUDE_3_STREAK, ConsecutiveDays 3), (GRATITUDE_7_STREAK, ConsecutiveDays 7)]"

text \<open>The grant set of a user, and the rules of a domain as (badge name, predicate) pairs.\<close>

definition grant_set :: "world \<Rightarrow> string \<Rightarrow> string set" where
  "grant_set w uid = set [badge_name r. r \<leftarrow> user_badges w, UserBadge.user_id r = uid]"

definition rules :: "ActivityDomain \<Rightarrow> string \<Rightarrow> (string \<times> (activity_db \<Rightarrow> bool)) list" where
  "rules d uid = map (\<lambda>(key, p). (badges key, holds d p uid)) (catalogue d)"

text \<open>
  The badges a pass has to grant: the rules of the domain, in order, whose badge is not in
  the grant set loaded at the start and whose predicate holds of the activity history.
\<close>

definition newly_qualifying :: "ActivityDomain \<Rightarrow> string \<Rightarrow> world \<Rightarrow> string list" where
  "newly_qualifying d uid w =
     [badge. (badge, p) \<leftarrow> rules d uid, badge \<notin> grant_set w uid, p (activity w)]"

text \<open>At most one grant record for every pair of a user and a badge.\<close>

definition one_record_per_badge :: "UserBadge list \<Rightarrow> bool" where
  "one_record_per_badge ledger =
     distinct (map (\<lambda>r. (UserBadge.user_id r, badge_name r)) ledger)"

text \<open>
  The grant writes of any number of passes, in the order in which they reach the data
  source: each write is atomic, so a concurrent execution of passes changes the ledger as
  some such sequence does.
\<close>

fun grant_sequence :: "(string \<times> string) list \<Rightarrow> world \<Rightarrow> world" where
  "grant_sequence [] w = w"
| "grant_sequence ((uid, badge) # ops) w =
     grant_sequence ops (snd (BadgesRepository_grantBadgeByName uid badge w))"

text \<open>
  The outcomes of the calls to the data source made between a state and a later one, read
  off the schedule: \<open>None\<close> for a call that was answered, \<open>Some e\<close> for one that threw \<open>e\<close>.
\<close>

definition consumed :: "world \<Rightarrow> world \<Rightarrow> error option list" where
  "consumed w w' = take (length (outages w) - length (outages w')) (outages w)"

section \<open>The workers as one loop\<close>

text \<open>
  The sequence of checks of a worker, written as a loop over a list of checks: a badge
  name and the query that decides it, which PostgreSQL answers with a boolean or rejects
  with an error. Each worker of the source is shown below to be equal to this loop over
  the checks of its domain (\<open>badgeWorker_loop\<close>); the loop serves the proofs by induction.
\<close>

type_synonym badge_check = "string \<times> (activity_db \<Rightarrow> error + bool)"

definition evaluate_rule :: "string \<Rightarrow> string set \<Rightarrow> badge_check \<Rightarrow> unit io" where
  "evaluate_rule uid badgeNames r = award_unless_held badgeNames uid (fst r) (AppDataSource_query (snd r))"

fun run_rules :: "string \<Rightarrow> string set \<Rightarrow> badge_check list \<Rightarrow> unit io" where
  "run_rules uid badgeNames [] = pure_io ()"
| "run_rules uid badgeNames (r # rs) =
     then_io (evaluate_rule uid badgeNames r) (run_rules uid badgeNames rs)"

definition evaluation_pass :: "string \<Rightarrow> badge_check list \<Rightarrow> unit io" where
  "evaluation_pass uid rs =
     bind_io (BadgesRepository_getUserBadges uid)
       (\<lambda>userBadges. run_rules uid (set (map badge_name userBadges)) rs)"

text \<open>
  What a repository method makes of the answer to its query: the error, or the flag of the
  first row.
\<close>

definition flagged :: "(activity_db \<Rightarrow> error + bool list) \<Rightarrow> activity_db \<Rightarrow> error + bool" where
  "flagged q db = (case q db of Inl e \<Rightarrow> Inl e | Inr result \<Rightarrow> Inr (first_flag result))"

text \<open>The checks of each worker, in the order and with the arguments of its source.\<close>

fun checks :: "ActivityDomain \<Rightarrow> string \<Rightarrow> badge_check list" where
  "checks Journal userId =
     [(badges JOURNAL_FIRST_ENTRY, flagged (JournalEntryRepository_hasFirstEntry_sql userId)),
      (badges JOURNAL_3_STREAK, flagged (JournalEntryRepository_hasConsecutiveDays_sql userId 3)),
      (badges JOURNAL_7_STREAK, flagged (JournalEntryRepository_hasConsecutiveDays_sql userId 7)),
      (badges JOURNAL_10_ENTRIES, flagged (JournalEntryRepository_hasReachedEntryCount_sql userId 10)),
      (badges JOURNAL_20_ENTRIES, flagged (JournalEntryRepository_hasReachedEntryCount_sql userId 20)),
      (badges JOURNAL_30_ENTRIES, flagged (JournalEntryRepository_hasReachedEntryCount_sql userId 30))]"
| "checks FlipAndFeel userId =
     [(badges FLIP_AND_FEEL_FIRST, flagged (FlipFeelRepository_hasFirstEntry_sql userId)),
      (badges FLIP_AND_FEEL_ALL_CATEGORIES,
         flagged (FlipFeelRepository_hasCompletedAllCategories_sql userId validCategories)),
      (badges FLIP_AND_FEEL_7_STREAK, flagged (FlipFeelRepository_hasConsecutiveDays_sql userId 7))]"
| "checks MoodCheckIn userId =
     [(badges MOOD_CHECKIN_7_STREAK, flagged (MoodCheckInRepository_hasConsecutiveDays_sql userId 7)),
      (badges MOOD_CHECKIN_14_STREAK, flagged (MoodCheckInRepository_hasConsecutiveDays_sql userId 14))]"
| "checks Gratitude userId =
     [(badges GRATITUDE_FIRST_ENTRY, flagged (GratitudeEntryRepository_hasFirstEntry_sql userId)),
      (badges GRATITUDE_10_ENTRIES, flagged (GratitudeEntryRepository_hasReachedEntryCount_sql userId 10)),
      (badges GRATITUDE_25_ENTRIES, flagged (GratitudeEntryRepository_hasReachedEntryCount_sql userId 25)),
      (badges GRATITUDE_50_ENTRIES, flagged (GratitudeEntryRepository_hasReachedEntryCount_sql userId 50)),
      (badges GRATITUDE_100_ENTRIES, flagged (GratitudeEntryRepository_hasReachedEntryCount_sql userId 100)),
      (badges GRATITUDE_3_STREAK, flagged (GratitudeEntryRepository_hasConsecutiveDays_sql userId 3)),
      (badges GRATITUDE_7_STREAK, flagged (GratitudeEntryRepository_hasConsecutiveDays_sql userId 7))]"

section \<open>Passes and failures, in the words of the specification\<close>

text \<open>
  The definitions of this section follow the words of the specification, not the code.
  The badges a list of checks has to grant: those not held whose query answers true.
\<close>

definition due :: "string set \<Rightarrow> badge_check list \<Rightarrow> activity_db \<Rightarrow> string list" where
  "due names rs db = [b. (b, q) \<leftarrow> rs, b \<notin> names, q db = Inr True]"

text \<open>
  Between two states every call to the data source was answered, or all were answered up
  to one that threw \<open>e\<close> and was the last.
\<close>

definition calls_answered :: "world \<Rightarrow> world \<Rightarrow> bool" where
  "calls_answered w w' = (\<exists>pre. outages w = pre @ outages w' \<and> set pre \<subseteq> {None})"

definition call_failed :: "error \<Rightarrow> world \<Rightarrow> world \<Rightarrow> bool" where
  "call_failed e w w' = (\<exists>pre. outages w = pre @ Some e # outages w' \<and> set pre \<subseteq> {None})"

text \<open>
  The rules evaluated before the failure. Read off the schedule of the data source, the
  grant set loaded and the activity history, not off what the pass does: a rule whose
  badge is held is passed over without a call; any other rule needs its query answered
  (one call) and, when the answer is true, its grant written (a second call). The
  rules evaluated are those before the first rule that has a call thrown by the data source
  or its query rejected; when the load of the grant set itself is thrown there is none.
\<close>

definition call_answered :: "error option list \<Rightarrow> bool" where
  "call_answered os = (case os of [] \<Rightarrow> True | x # _ \<Rightarrow> x = None)"

fun completed_checks ::
  "string set \<Rightarrow> activity_db \<Rightarrow> error option list \<Rightarrow> badge_check list \<Rightarrow> badge_check list" where
  "completed_checks names db os [] = []"
| "completed_checks names db os ((b, q) # cs) =
     (if b \<in> names then (b, q) # completed_checks names db os cs
      else if \<not> call_answered os then []
      else case q db of
             Inl e \<Rightarrow> []
           | Inr ok \<Rightarrow>
               if \<not> ok then (b, q) # completed_checks names db (tl os) cs
               else if call_answered (tl os) then (b, q) # completed_checks names db (tl (tl os)) cs
               else [])"

definition evaluated_before_failure :: "ActivityDomain \<Rightarrow> string \<Rightarrow> world \<Rightarrow> badge_check list" where
  "evaluated_before_failure d uid w =
     (if call_answered (outages w)
      then completed_checks (grant_set w uid) (activity w) (tl (outages w)) (checks d uid)
      else [])"

text \<open>The rest of the rules: the rule at which the pass fails and those after it.\<close>

definition remaining_rules :: "ActivityDomain \<Rightarrow> string \<Rightarrow> world \<Rightarrow> badge_check list" where
  "remaining_rules d uid w = drop (length (evaluated_before_failure d uid w)) (checks d uid)"

text \<open>The data source answers every call.\<close>

definition storage_answers :: "world \<Rightarrow> bool" where
  "storage_answers w = (set (outages w) \<subseteq> {None})"

section \<open>BadgeWorkerController\<close>

text \<open>
  \<open>payload.name\<close>: reading a member of \<open>null\<close> throws a \<open>TypeError\<close>; a member an object
  does not have, and any member of a number, string, boolean or array that is not one of
  its own, is \<open>undefined\<close> (\<open>None\<close>). Only \<open>eventType\<close> and \<open>userId\<close> are read.
\<close>

fun get_property :: "json \<Rightarrow> string \<Rightarrow> error + json option" where
  "get_property JNull name =
     Inl (TypeError (''Cannot read properties of null (reading '' @ [CHR 0x27] @ name @ [CHR 0x27] @ '')''))"
| "get_property (JObj members) name = Inr (map_of members name)"
| "get_property (JBool b) name = Inr None"
| "get_property (JNum x) name = Inr None"
| "get_property (JStr s) name = Inr None"
| "get_property (JArr vs) name = Inr None"

fun truthy :: "json option \<Rightarrow> bool" where
  "truthy None = False"
| "truthy (Some JNull) = False"
| "truthy (Some (JBool b)) = b"
| "truthy (Some (JNum x)) = (x \<noteq> 0)"
| "truthy (Some (JStr s)) = (s \<noteq> [])"
| "truthy (Some (JArr vs)) = True"
| "truthy (Some (JObj members)) = True"

text \<open>
  A template literal converts the interpolated value to a string. The conversion of an
  object tries its \<open>toString\<close> and its \<open>valueOf\<close>: a decoded object that has a member
  named \<open>toString\<close> (never a function) hides the inherited method, the inherited
  \<open>valueOf\<close> returns the object itself, and the conversion throws a \<open>TypeError\<close>. An
  array joins the conversions of its elements other than \<open>null\<close>. \<open>undefined\<close>, \<open>null\<close>,
  booleans, numbers and strings always convert.
\<close>

fun unprintable :: "json \<Rightarrow> bool" where
  "unprintable JNull = False"
| "unprintable (JBool b) = False"
| "unprintable (JNum x) = False"
| "unprintable (JStr s) = False"
| "unprintable (JArr vs) = (\<exists>v\<in>set vs. unprintable v)"
| "unprintable (JObj members) = (''toString'' \<in> fst ` set members)"

definition interpolation_throws :: "json option \<Rightarrow> bool" where
  "interpolation_throws v = (case v of None \<Rightarrow> False | Some j \<Rightarrow> unprintable j)"

text \<open>The \<open>catch\<close> block of the handler: every thrown error is answered with 500.\<close>

definition internal_error :: "error \<Rightarrow> response" where
  "internal_error e = Response 500 (ErrorText (error_message e))"

text \<open>\<open>await\<close> of a worker inside the \<open>switch\<close>, then the 204 answer.\<close>

definition run_worker ::
  "(json \<Rightarrow> 'w \<Rightarrow> (error + unit) \<times> 'w) \<Rightarrow> json \<Rightarrow> 'w \<Rightarrow> response \<times> 'w" where
  "run_worker worker userId w =
     (case worker userId w of
        (Inl e, w') \<Rightarrow> (internal_error e, w')
      | (Inr _, w') \<Rightarrow> (Response 204 NoContent, w'))"

text \<open>
  The handler from the validation of the payload on (the decoded payload is given): the
  check of the two fields, the log line that interpolates both of them, the \<open>switch\<close>.
  The calls of the logger have no other effect here.
\<close>

definition handle_payload :: "'w BadgeWorkerService \<Rightarrow> json \<Rightarrow> 'w \<Rightarrow> response \<times> 'w" where
  "handle_payload service payload w =
     (case get_property payload ''eventType'' of
        Inl e \<Rightarrow> (internal_error e, w)
      | Inr eventType \<Rightarrow>
          if \<not> truthy eventType
          then (Response 400 (ErrorText ''Bad Request: Missing eventType or userId''), w)
          else (case get_property payload ''userId'' of
             Inl e \<Rightarrow> (internal_error e, w)
           | Inr userId \<Rightarrow>
               (case userId of
                  None \<Rightarrow> (Response 400 (ErrorText ''Bad Request: Missing eventType or userId''), w)
                | Some uid \<Rightarrow>
                    if \<not> truthy userId
                    then (Response 400 (ErrorText ''Bad Request: Missing eventType or userId''), w)
                    else if interpolation_throws eventType \<or> interpolation_throws userId
                      then (internal_error (TypeError ''Cannot convert object to primitive value''), w)
                    else if eventType = Some (JStr ''JOURNAL_ENTRY_CREATED'')
                      then run_worker (BadgeWorkerService.journalBadgeWorker service) uid w
                    else if eventType = Some (JStr ''FLIP_FEEL_ENTRY_CREATED'')
                      then run_worker (BadgeWorkerService.flipAndFeelBadgeWorker service) uid w
                    else if eventType = Some (JStr ''MOOD_CHECKIN_CREATED'')
                      then run_worker (BadgeWorkerService.moodBadgeWorker service) uid w
                    else if eventType = Some (JStr ''GRATITUDE_ENTRY_CREATED'')
                      then run_worker (BadgeWorkerService.gratitudeBadgeWorker service) uid w
                    else (Response 400 (UnknownEventType eventType), w))))"

definition handleBadgeAwarding ::
  "runtime \<Rightarrow> 'w BadgeWorkerService \<Rightarrow> PubSubMessage option \<Rightarrow> 'w \<Rightarrow> response \<times> 'w" where
  "handleBadgeAwarding rt service body w =
     (case body of
        None \<Rightarrow> (Response 400 (ErrorText ''Bad Request: Invalid message format''), w)
      | Some envelope \<Rightarrow>
          (case message envelope of
             None \<Rightarrow> (Response 400 (ErrorText ''Bad Request: Invalid message format''), w)
           | Some msg \<Rightarrow>
               (case data msg of
                  None \<Rightarrow> (Response 400 (ErrorText ''Bad Request: No data field''), w)
                | Some d \<Rightarrow>
                    if d = [] then (Response 400 (ErrorText ''Bad Request: No data field''), w)
                    else (case JSON_parse rt (Buffer_from_base64 rt d) of
                            Inl e \<Rightarrow> (internal_error e, w)
                          | Inr payload \<Rightarrow> handle_payload service payload w))))"

text \<open>The four event types the \<open>switch\<close> knows.\<close>

definition known_event_types :: "json option set" where
  "known_event_types =
     {Some (JStr ''JOURNAL_ENTRY_CREATED''), Some (JStr ''FLIP_FEEL_ENTRY_CREATED''),
      Some (JStr ''MOOD_CHECKIN_CREATED''), Some (JStr ''GRATITUDE_ENTRY_CREATED'')}"

section \<open>Example histories\<close>

text \<open>
  Histories used to instantiate the theorems below. Ana has journal entries on the days
  100, 101 and 103 and a soft-deleted one on day 102; gratitude entries on the days 100,
  101 and 102 (two of them); mood check-ins on the seven days 200 to 206; a completed
  reflection session that answers a question of each of the seven categories (one of them
  twice) and an unfinished one. Ben has a completed session covering six categories and
  an unfinished session with the seventh. Cy has journal entries on the days 50, 51, 52.
  Dee has a completed reflection session on each of the seven days 290 to 296.
\<close>

definition noon :: "int \<Rightarrow> timestamptz" where
  "noon d = d * 86400000000 + 43200000000"

definition example_journal :: "JournalEntry list" where
  "example_journal =
     [\<lparr>journal_id = ''j1'', JournalEntry.user_id = ''ana'',
        JournalEntry.is_deleted = False, JournalEntry.created_at = noon 100\<rparr>,
      \<lparr>journal_id = ''j2'', JournalEntry.user_id = ''ana'',
         JournalEntry.is_deleted = False, JournalEntry.created_at = noon 101\<rparr>,
      \<lparr>journal_id = ''j3'', JournalEntry.user_id = ''ana'',
         JournalEntry.is_deleted = True, JournalEntry.created_at = noon 102\<rparr>,
      \<lparr>journal_id = ''j4'', JournalEntry.user_id = ''ana'',
         JournalEntry.is_deleted = False, JournalEntry.created_at = noon 103\<rparr>,
      \<lparr>journal_id = ''j5'', JournalEntry.user_id = ''ben'',
         JournalEntry.is_deleted = False, JournalEntry.created_at = noon 102\<rparr>,
      \<lparr>journal_id = ''j6'', JournalEntry.user_id = ''cy'',
         JournalEntry.is_deleted = False, JournalEntry.created_at = noon 50\<rparr>,
      \<lparr>journal_id = ''j7'', JournalEntry.user_id = ''cy'',
         JournalEntry.is_deleted = False, JournalEntry.created_at = noon 51\<rparr>,
      \<lparr>journal_id = ''j8'', JournalEntry.user_id = ''cy'',
         JournalEntry.is_deleted = False, JournalEntry.created_at = noon 52\<rparr>]"

definition example_gratitude :: "GratitudeEntry list" where
  "example_gratitude =
     [\<lparr>gratitude_id = ''g1'', GratitudeEntry.user_id = ''ana'',
        GratitudeEntry.is_deleted = False, GratitudeEntry.created_at = noon 100\<rparr>,
      \<lparr>gratitude_id = ''g2'', GratitudeEntry.user_id = ''ana'',
         GratitudeEntry.is_deleted = False, GratitudeEntry.created_at = noon 101\<rparr>,
      \<lparr>gratitude_id = ''g3'', GratitudeEntry.user_id = ''ana'',
         GratitudeEntry.is_deleted = False, GratitudeEntry.created_at = noon 102\<rparr>,
      \<lparr>gratitude_id = ''g4'', GratitudeEntry.user_id = ''ana'',
         GratitudeEntry.is_deleted = False, GratitudeEntry.created_at = noon 102 + 1\<rparr>,
      \<lparr>gratitude_id = ''g5'', GratitudeEntry.user_id = ''ana'',
         GratitudeEntry.is_deleted = True, GratitudeEntry.created_at = noon 103\<rparr>]"

definition example_mood :: "MoodCheckIn list" where
  "example_mood =
     map (\<lambda>d. \<lparr>check_in_id = ''m'', MoodCheckIn.user_id = ''ana'', checked_in_at = noon d\<rparr>)
       [200, 201, 202, 203, 204, 205, 206]"

definition example_sessions :: "FlipFeel list" where
  "example_sessions =
     [\<lparr>FlipFeel.flip_feel_id = ''s1'', FlipFeel.user_id = ''ana'',
        started_at = Some (noon 300), finished_at = Some (noon 300 + 5)\<rparr>,
      \<lparr>FlipFeel.flip_feel_id = ''s2'', FlipFeel.user_id = ''ana'',
         started_at = Some (noon 301), finished_at = None\<rparr>,
      \<lparr>FlipFeel.flip_feel_id = ''s3'', FlipFeel.user_id = ''ben'',
         started_at = Some (noon 300), finished_at = Some (noon 300 + 9)\<rparr>,
      \<lparr>FlipFeel.flip_feel_id = ''s4'', FlipFeel.user_id = ''ben'',
         started_at = Some (noon 301), finished_at = None\<rparr>]
     @ map (\<lambda>d. \<lparr>FlipFeel.flip_feel_id = ''s'', FlipFeel.user_id = ''dee'',
                started_at = Some (noon d), finished_at = Some (noon d + 7)\<rparr>)
         [290, 291, 292, 293, 294, 295, 296]"

definition example_questions :: "FlipFeelQuestions list" where
  "example_questions =
     map (\<lambda>c. \<lparr>FlipFeelQuestions.question_id = ''q-'' @ c,
             question_text = ''About '' @ c, category = c\<rparr>)
       validCategories"

definition answer :: "string \<Rightarrow> string \<Rightarrow> string \<Rightarrow> FlipFeelResponse" where
  "answer rid sid c =
     \<lparr>response_id = rid, FlipFeelResponse.flip_feel_id = sid,
      FlipFeelResponse.question_id = ''q-'' @ c, choice_id = ''c1'',
      FlipFeelResponse.created_at = noon 300\<rparr>"

definition example_responses :: "FlipFeelResponse list" where
  "example_responses =
     [answer ''r1'' ''s1'' ''school'', answer ''r2'' ''s1'' ''opposite_sex'',
      answer ''r3'' ''s1'' ''peers'', answer ''r4'' ''s1'' ''family'',
      answer ''r5'' ''s1'' ''crises'', answer ''r6'' ''s1'' ''emotions'',
      answer ''r7'' ''s1'' ''recreation'', answer ''r8'' ''s1'' ''school'',
      answer ''r9'' ''s3'' ''school'', answer ''r10'' ''s3'' ''opposite_sex'',
      answer ''r11'' ''s3'' ''peers'', answer ''r12'' ''s3'' ''family'',
      answer ''r13'' ''s3'' ''crises'', answer ''r14'' ''s3'' ''emotions'',
      answer ''r15'' ''s4'' ''recreation'']"

definition example_activity :: activity_db where
  "example_activity =
     \<lparr>journal_entries = example_journal, gratitude_entries = example_gratitude,
      mood_check_ins = example_mood, flip_feel = example_sessions,
      flip_feel_responses = example_responses, flip_feel_questions = example_questions\<rparr>"

definition example_world :: world where
  "example_world =
     \<lparr>activity = example_activity, user_badges = [], now = noon 301, outages = [],
      grant_log = []\<rparr>"

text \<open>The same history after the soft-deleted rows have been purged and others added.\<close>

definition purged_world :: world where
  "purged_world =
     example_world\<lparr>activity := example_activity
       \<lparr>journal_entries :=
          \<lparr>journal_id = ''j9'', JournalEntry.user_id = ''ana'',
             JournalEntry.is_deleted = True, JournalEntry.created_at = noon 104\<rparr>
            # [e \<leftarrow> example_journal. \<not> JournalEntry.is_deleted e],
        gratitude_entries := [e \<leftarrow> example_gratitude. \<not> GratitudeEntry.is_deleted e]\<rparr>\<rparr>"

text \<open>Cy already holds the badge of the three-day journal streak.\<close>

definition held_world :: world where
  "held_world =
     example_world\<lparr>user_badges := [grant_record ''cy'' (noon 53) ''Mindful Momentum'']\<rparr>"

text \<open>The sixth call to the data source from now on fails.\<close>

definition connection_lost :: error where
  "connection_lost = QueryFailedError ''Connection terminated unexpectedly''"

definition outage_world :: world where
  "outage_world =
     example_world\<lparr>outages := [None, None, None, None, None, Some connection_lost]\<rparr>"

text \<open>
  A runtime that agrees with Node.js on the five message texts used below (base64 text,
  decoded text, parsed value), a service that only counts its invocations, and a push
  envelope around a data field.
\<close>

definition example_runtime :: runtime where
  \<open>example_runtime =
     \<lparr>Buffer_from_base64 = (\<lambda>s.
        if s = ''bnVsbA=='' then ''null''
        else if s = ''eyJldmVudFR5cGUiOiJKT1VSTkFMX0VOVFJZX0NSRUFURUQiLCJ1c2VySWQiOiIifQ==''
          then ''{"eventType":"JOURNAL_ENTRY_CREATED","userId":""}''
        else if s = ''eyJldmVudFR5cGUiOiJCQURHRV9SRVZPS0VEIiwidXNlcklkIjoiYW5hIn0=''
          then ''{"eventType":"BADGE_REVOKED","userId":"ana"}''
        else if s = ''eyJldmVudFR5cGUiOiJKT1VSTkFMX0VOVFJZX0NSRUFURUQifQ==''
          then ''{"eventType":"JOURNAL_ENTRY_CREATED"}''
        else if s = ''eyJldmVudFR5cGUiOiJKT1VSTkFMX0VOVFJZX0NSRUFURUQiLCJ1c2VySWQiOiJhbmEifQ==''
          then ''{"eventType":"JOURNAL_ENTRY_CREATED","userId":"ana"}''
        else []),
      JSON_parse = (\<lambda>t.
        if t = ''null'' then Inr JNull
        else if t = ''{"eventType":"JOURNAL_ENTRY_CREATED","userId":""}''
          then Inr (JObj [(''eventType'', JStr ''JOURNAL_ENTRY_CREATED''), (''userId'', JStr [])])
        else if t = ''{"eventType":"BADGE_REVOKED","userId":"ana"}''
          then Inr (JObj [(''eventType'', JStr ''BADGE_REVOKED''), (''userId'', JStr ''ana'')])
        else if t = ''{"eventType":"JOURNAL_ENTRY_CREATED"}''
          then Inr (JObj [(''eventType'', JStr ''JOURNAL_ENTRY_CREATED'')])
        else if t = ''{"eventType":"JOURNAL_ENTRY_CREATED","userId":"ana"}''
          then Inr (JObj [(''eventType'', JStr ''JOURNAL_ENTRY_CREATED''), (''userId'', JStr ''ana'')])
        else Inl (SyntaxError ''Unexpected end of JSON input''))\<rparr>\<close>

definition counting_service :: "nat BadgeWorkerService" where
  "counting_service =
     \<lparr>BadgeWorkerService.journalBadgeWorker = (\<lambda>userId n. (Inr (), Suc n)),
      BadgeWorkerService.flipAndFeelBadgeWorker = (\<lambda>userId n. (Inr (), Suc n)),
      BadgeWorkerService.moodBadgeWorker = (\<lambda>userId n. (Inr (), Suc n)),
      BadgeWorkerService.gratitudeBadgeWorker = (\<lambda>userId n. (Inr (), Suc n))\<rparr>"

definition push :: "string \<Rightarrow> PubSubMessage option" where
  "push d =
     Some \<lparr>message = Some \<lparr>data = Some d, messageId = Some ''1'', publishTime = None\<rparr>,
           subscription = None\<rparr>"

section \<open>Basic facts about calls\<close>

lemma storage_call_eq:
  "storage_call op w =
     (case next_outage w of
        Some e \<Rightarrow> (Inl e, consume w)
      | None \<Rightarrow> (Inr (fst (op (consume w))), snd (op (consume w))))"
proof (cases "outages w")
  case Nil
  then have same: "w\<lparr>outages := []\<rparr> = w"
    by (cases w) simp
  show ?thesis
    by (simp add: storage_call_def next_outage_def consume_def Nil same split: prod.splits)
next
  case (Cons x rest)
  then show ?thesis
    by (simp add: storage_call_def next_outage_def consume_def split: option.splits prod.splits)
qed

lemma query_eq:
  "AppDataSource_query q w =
     (case next_outage w of
        Some e \<Rightarrow> (Inl e, consume w)
      | None \<Rightarrow> (q (activity w), consume w))"
  by (simp add: AppDataSource_query_def storage_call_eq consume_def bind_io_def throw_io_def pure_io_def
      split: option.splits sum.splits)

lemma method_flagged:
  "bind_io (AppDataSource_query q) (\<lambda>result. pure_io (first_flag result)) = AppDataSource_query (flagged q)"
  by (rule ext) (simp add: bind_io_def pure_io_def query_eq flagged_def split: option.splits sum.splits)

lemma with_bigint_in_range:
  "- (2 ^ 63) \<le> n \<Longrightarrow> n < 2 ^ 63 \<Longrightarrow> with_bigint n f = Inr (f n)"
  by (simp add: with_bigint_def)

lemma with_bigint_out_of_range:
  "n < - (2 ^ 63) \<or> 2 ^ 63 \<le> n \<Longrightarrow> with_bigint n f = Inl bigint_out_of_range"
  by (auto simp: with_bigint_def)

section \<open>The streak query computes the longest run\<close>

lemma key_step:
  fixes xs :: "int list"
  assumes "sorted_wrt (<) xs" "Suc j < length xs"
  shows "xs ! j - int j \<le> xs ! Suc j - int (Suc j)"
proof -
  have "xs ! j < xs ! Suc j"
    using assms by (simp add: sorted_wrt_nth_less)
  then show ?thesis by simp
qed

lemma key_mono:
  fixes xs :: "int list"
  assumes "sorted_wrt (<) xs" "i \<le> j" "j < length xs"
  shows "xs ! i - int i \<le> xs ! j - int j"
  using assms(2,3)
proof (induction j)
  case 0
  then show ?case by simp
next
  case (Suc j)
  show ?case
  proof (cases "i = Suc j")
    case True
    then show ?thesis by simp
  next
    case False
    with Suc.prems have "i \<le> j" "j < length xs" by simp_all
    then have "xs ! i - int i \<le> xs ! j - int j" by (rule Suc.IH)
    also have "\<dots> \<le> xs ! Suc j - int (Suc j)"
      using assms(1) Suc.prems(2) by (rule key_step)
    finally show ?thesis .
  qed
qed

lemma consecutive_days_nth:
  assumes "i < length daily"
  shows "consecutive_days daily ! i = (sort daily ! i, sort daily ! i - int (Suc i))"
  using assms by (simp add: consecutive_days_def nth_enumerate_eq)

lemma length_consecutive_days: "length (consecutive_days daily) = length daily"
  by (simp add: consecutive_days_def)

lemma first_flag_streak_exists:
  "first_flag (streak_exists daily k) =
     (\<exists>g\<in>snd ` set (consecutive_days daily). k \<le> int (length [r \<leftarrow> consecutive_days daily. snd r = g]))"
  by (auto simp: first_flag_def streak_exists_def streak_lengths_def filter_empty_conv)

lemma group_size:
  "length [r \<leftarrow> consecutive_days daily. snd r = g] =
     card {i. i < length daily \<and> sort daily ! i - int (Suc i) = g}"
proof -
  have "length [r \<leftarrow> consecutive_days daily. snd r = g] =
      card {i. i < length (consecutive_days daily) \<and> snd (consecutive_days daily ! i) = g}"
    by (rule length_filter_conv_card)
  also have "{i. i < length (consecutive_days daily) \<and> snd (consecutive_days daily ! i) = g} =
      {i. i < length daily \<and> sort daily ! i - int (Suc i) = g}"
    by (auto simp: length_consecutive_days consecutive_days_nth)
  finally show ?thesis .
qed

lemma run_to_group:
  fixes xs :: "int list"
  assumes s: "sorted_wrt (<) xs" and k: "0 < k" and a: "a < length xs"
    and run: "\<forall>t\<in>{0..<k}. xs ! a + t \<in> set xs"
  shows "t < nat k \<Longrightarrow> a + t < length xs \<and> xs ! (a + t) = xs ! a + int t"
proof (induction t)
  case 0
  then show ?case using a by simp
next
  case (Suc t)
  then have ih: "a + t < length xs" "xs ! (a + t) = xs ! a + int t" by simp_all
  from Suc.prems have "int (Suc t) \<in> {0..<k}" by auto
  with run have "xs ! a + int (Suc t) \<in> set xs" by blast
  then obtain j where j: "j < length xs" "xs ! j = xs ! a + int (Suc t)"
    by (auto simp: in_set_conv_nth)
  have "a + t < j"
  proof (rule ccontr)
    assume "\<not> a + t < j"
    then have "j \<le> a + t" by simp
    then have "xs ! j \<le> xs ! (a + t)"
      using s ih(1) by (metis le_neq_implies_less less_le sorted_wrt_nth_less order_refl)
    with j ih show False by simp
  qed
  have "\<not> Suc (a + t) < j"
  proof
    assume "Suc (a + t) < j"
    then have "xs ! Suc (a + t) < xs ! j" using s j(1) by (simp add: sorted_wrt_nth_less)
    moreover have "xs ! (a + t) < xs ! Suc (a + t)"
      using s j(1) \<open>Suc (a + t) < j\<close> by (simp add: sorted_wrt_nth_less)
    ultimately show False using j ih by simp
  qed
  with \<open>a + t < j\<close> have "j = Suc (a + t)" by simp
  with j show ?case by simp
qed


lemma group_to_run:
  fixes xs :: "int list"
  assumes s: "sorted_wrt (<) xs" and k: "0 < k"
    and big: "k \<le> int (card {i. i < length xs \<and> xs ! i - int (Suc i) = g})"
  shows "\<exists>d\<in>set xs. \<forall>t\<in>{0..<k}. d + t \<in> set xs"
proof -
  let ?S = "{i. i < length xs \<and> xs ! i - int (Suc i) = g}"
  have fin: "finite ?S" by simp
  have ne: "?S \<noteq> {}"
  proof
    assume e: "?S = {}"
    have "card ?S = 0" unfolding e by simp
    with k big show False by simp
  qed
  define a where "a = Min ?S"
  define b where "b = Max ?S"
  have a: "a \<in> ?S" unfolding a_def using fin ne by (rule Min_in)
  have b: "b \<in> ?S" unfolding b_def using fin ne by (rule Max_in)
  have "?S \<subseteq> {a..b}"
    using fin by (auto simp: a_def b_def)
  then have "card ?S \<le> card {a..b}"
    by (rule card_mono[rotated]) simp
  with big have len: "k \<le> int (Suc b - a)" by simp
  have mid: "xs ! (a + nat t) = xs ! a + t" "a + nat t < length xs" if t: "t \<in> {0..<k}" for t
  proof -
    from t len have le: "a + nat t \<le> b" by auto
    with b have lt: "a + nat t < length xs" by simp
    have "xs ! a - int a \<le> xs ! (a + nat t) - int (a + nat t)"
      using s _ lt by (rule key_mono) simp
    moreover have "xs ! (a + nat t) - int (a + nat t) \<le> xs ! b - int b"
      using s le b by (intro key_mono) simp_all
    moreover have "xs ! a - int a = xs ! b - int b"
      using a b by simp
    ultimately have "xs ! (a + nat t) - int (a + nat t) = xs ! a - int a" by simp
    with t show "xs ! (a + nat t) = xs ! a + t" by simp
    show "a + nat t < length xs" by (rule lt)
  qed
  have "xs ! a \<in> set xs" using a by simp
  moreover have "\<forall>t\<in>{0..<k}. xs ! a + t \<in> set xs"
  proof
    fix t assume t: "t \<in> {0..<k}"
    then have "xs ! (a + nat t) \<in> set xs" using mid(2) by (intro nth_mem)
    with mid(1)[OF t] show "xs ! a + t \<in> set xs" by simp
  qed
  ultimately show ?thesis by blast
qed

lemma run_group_size:
  fixes xs :: "int list"
  assumes s: "sorted_wrt (<) xs" and k: "0 < k" and a: "a < length xs"
    and run: "\<forall>t\<in>{0..<k}. xs ! a + t \<in> set xs"
  shows "k \<le> int (card {i. i < length xs \<and> xs ! i - int (Suc i) = xs ! a - int (Suc a)})"
proof -
  have "{a..<a + nat k} \<subseteq> {i. i < length xs \<and> xs ! i - int (Suc i) = xs ! a - int (Suc a)}"
  proof
    fix i assume "i \<in> {a..<a + nat k}"
    then obtain t where t: "i = a + t" "t < nat k"
      by (metis atLeastLessThan_iff le_Suc_ex nat_add_left_cancel_less)
    from run_to_group[OF s k a run t(2)] t(1)
    show "i \<in> {i. i < length xs \<and> xs ! i - int (Suc i) = xs ! a - int (Suc a)}" by simp
  qed
  then have "card {a..<a + nat k} \<le> card {i. i < length xs \<and> xs ! i - int (Suc i) = xs ! a - int (Suc a)}"
    by (rule card_mono[rotated]) simp
  with k show ?thesis by simp
qed

lemma streak_exists_iff:
  assumes d: "distinct daily" and k: "0 < k"
  shows "first_flag (streak_exists daily k) = has_run (set daily) k"
proof -
  let ?xs = "sort daily"
  have s: "sorted_wrt (<) ?xs"
    using d by (simp add: strict_sorted_iff)
  have len: "length ?xs = length daily" by simp
  show ?thesis
  proof
    assume "first_flag (streak_exists daily k)"
    then obtain g where "k \<le> int (card {i. i < length ?xs \<and> ?xs ! i - int (Suc i) = g})"
      by (auto simp: first_flag_streak_exists group_size)
    from group_to_run[OF s k this] show "has_run (set daily) k"
      by (simp add: has_run_def)
  next
    assume "has_run (set daily) k"
    then obtain a where a: "a < length ?xs" and run: "\<forall>t\<in>{0..<k}. ?xs ! a + t \<in> set ?xs"
      unfolding has_run_def by (metis in_set_conv_nth set_sort)
    let ?g = "?xs ! a - int (Suc a)"
    from run_group_size[OF s k a run]
    have "k \<le> int (length [r \<leftarrow> consecutive_days daily. snd r = ?g])"
      by (simp add: group_size)
    moreover have "?g \<in> snd ` set (consecutive_days daily)"
    proof -
      from a have "a < length (consecutive_days daily)" by (simp add: length_consecutive_days)
      then have "consecutive_days daily ! a \<in> set (consecutive_days daily)" by (rule nth_mem)
      moreover have "snd (consecutive_days daily ! a) = ?g"
        using a by (simp add: consecutive_days_nth)
      ultimately show ?thesis by (metis imageI)
    qed
    ultimately show "first_flag (streak_exists daily k)"
      unfolding first_flag_streak_exists by blast
  qed
qed

section \<open>The queries compute the predicates of the specification\<close>

lemma method_result:
  "bind_io (AppDataSource_query q) (\<lambda>result. pure_io (first_flag result)) w =
     (case next_outage w of
        Some e \<Rightarrow> (Inl e, consume w)
      | None \<Rightarrow> (flagged q (activity w), consume w))"
  by (simp add: method_flagged query_eq)

lemma comprehension2:
  "[f e. e \<leftarrow> xs, P e, Q e] = map f [e \<leftarrow> xs. P e \<and> Q e]"
  by (induction xs) simp_all

lemma comprehension1:
  "[f e. e \<leftarrow> xs, P e] = map f [e \<leftarrow> xs. P e]"
  by (induction xs) simp_all

lemma journal_dates:
  "map (\<lambda>e. utc_date (JournalEntry.created_at e)) (journal_rows db uid) = qualifying_dates Journal db uid"
  by (simp add: journal_rows_def comprehension2)

lemma gratitude_dates:
  "map (\<lambda>e. utc_date (GratitudeEntry.created_at e)) (gratitude_rows db uid) = qualifying_dates Gratitude db uid"
  by (simp add: gratitude_rows_def comprehension2)

lemma mood_dates:
  "map (\<lambda>c. utc_date (checked_in_at c)) [c \<leftarrow> mood_check_ins db. MoodCheckIn.user_id c = uid]
     = qualifying_dates MoodCheckIn db uid"
  by (simp add: comprehension1)

lemma flip_feel_dates_aux:
  "[utc_date t. f \<leftarrow> xs, FlipFeel.user_id f = uid, t \<leftarrow> (case finished_at f of None \<Rightarrow> [] | Some t \<Rightarrow> [t])]
    = map (\<lambda>f. utc_date (the (finished_at f))) [f \<leftarrow> xs. FlipFeel.user_id f = uid \<and> finished_at f \<noteq> None]"
  by (induction xs) (auto split: option.splits)

lemma flip_feel_dates:
  "map (\<lambda>f. utc_date (the (finished_at f))) (flip_feel_rows db uid) = qualifying_dates FlipAndFeel db uid"
  by (simp add: flip_feel_rows_def flip_feel_dates_aux)

lemma daily_streak:
  assumes "0 < k"
  shows "first_flag (streak_exists (rev (sort (remdups ds))) k) = has_run (set ds) k"
proof -
  have "distinct (rev (sort (remdups ds)))" by simp
  from streak_exists_iff[OF this assms] show ?thesis by simp
qed

lemma streak_flag:
  assumes "0 < k" and "k < 2 ^ 63"
  shows "flagged (\<lambda>db. with_bigint k (streak_exists (rev (sort (remdups (ds db)))))) db
       = Inr (has_run (set (ds db)) k)"
proof -
  from assms have "with_bigint k (streak_exists (rev (sort (remdups (ds db)))))
      = Inr (streak_exists (rev (sort (remdups (ds db)))) k)"
    by (intro with_bigint_in_range) simp_all
  then show ?thesis
    by (simp add: flagged_def daily_streak[OF assms(1)])
qed

lemma journal_streak_sql:
  "0 < k \<Longrightarrow> k < 2 ^ 63 \<Longrightarrow> flagged (JournalEntryRepository_hasConsecutiveDays_sql uid k) db
     = Inr (holds Journal (ConsecutiveDays k) uid db)"
  using streak_flag[of k "\<lambda>db. map (\<lambda>e. utc_date (JournalEntry.created_at e)) (journal_rows db uid)" db]
  by (simp add: JournalEntryRepository_hasConsecutiveDays_sql_def journal_daily_entries_def
      journal_dates flagged_def del: qualifying_dates.simps)

lemma gratitude_streak_sql:
  "0 < k \<Longrightarrow> k < 2 ^ 63 \<Longrightarrow> flagged (GratitudeEntryRepository_hasConsecutiveDays_sql uid k) db
     = Inr (holds Gratitude (ConsecutiveDays k) uid db)"
  using streak_flag[of k "\<lambda>db. map (\<lambda>e. utc_date (GratitudeEntry.created_at e)) (gratitude_rows db uid)" db]
  by (simp add: GratitudeEntryRepository_hasConsecutiveDays_sql_def gratitude_daily_entries_def
      gratitude_dates flagged_def del: qualifying_dates.simps)

lemma mood_streak_sql:
  "0 < k \<Longrightarrow> k < 2 ^ 63 \<Longrightarrow> flagged (MoodCheckInRepository_hasConsecutiveDays_sql uid k) db
     = Inr (holds MoodCheckIn (ConsecutiveDays k) uid db)"
  using streak_flag[of k "\<lambda>db. map (\<lambda>c. utc_date (checked_in_at c)) [c \<leftarrow> mood_check_ins db. MoodCheckIn.user_id c = uid]" db]
  by (simp add: MoodCheckInRepository_hasConsecutiveDays_sql_def mood_daily_checkins_def
      mood_dates flagged_def del: qualifying_dates.simps)

lemma flip_feel_streak_sql:
  "0 < k \<Longrightarrow> k < 2 ^ 63 \<Longrightarrow> flagged (FlipFeelRepository_hasConsecutiveDays_sql uid k) db
     = Inr (holds FlipAndFeel (ConsecutiveDays k) uid db)"
  using streak_flag[of k "\<lambda>db. map (\<lambda>f. utc_date (the (finished_at f))) (flip_feel_rows db uid)" db]
  by (simp add: FlipFeelRepository_hasConsecutiveDays_sql_def flip_feel_daily_sessions_def
      flip_feel_dates flagged_def del: qualifying_dates.simps)

lemma journal_count_sql:
  "- (2 ^ 63) \<le> n \<Longrightarrow> n < 2 ^ 63 \<Longrightarrow> flagged (JournalEntryRepository_hasReachedEntryCount_sql uid n) db
     = Inr (holds Journal (EntryCount n) uid db)"
  by (simp add: JournalEntryRepository_hasReachedEntryCount_sql_def first_flag_def flagged_def
      with_bigint_in_range journal_dates[symmetric] del: qualifying_dates.simps)

lemma gratitude_count_sql:
  "- (2 ^ 63) \<le> n \<Longrightarrow> n < 2 ^ 63 \<Longrightarrow> flagged (GratitudeEntryRepository_hasReachedEntryCount_sql uid n) db
     = Inr (holds Gratitude (EntryCount n) uid db)"
  by (simp add: GratitudeEntryRepository_hasReachedEntryCount_sql_def first_flag_def flagged_def
      with_bigint_in_range gratitude_dates[symmetric] del: qualifying_dates.simps)

lemma take1_nonempty: "(take 1 xs \<noteq> []) = (xs \<noteq> [])"
  by (cases xs) simp_all

lemma journal_first_sql:
  "flagged (JournalEntryRepository_hasFirstEntry_sql uid) db = Inr (holds Journal FirstEntry uid db)"
  by (simp add: JournalEntryRepository_hasFirstEntry_sql_def first_flag_def flagged_def
      journal_dates[symmetric] take1_nonempty del: qualifying_dates.simps)

lemma gratitude_first_sql:
  "flagged (GratitudeEntryRepository_hasFirstEntry_sql uid) db = Inr (holds Gratitude FirstEntry uid db)"
  by (simp add: GratitudeEntryRepository_hasFirstEntry_sql_def first_flag_def flagged_def
      gratitude_dates[symmetric] take1_nonempty del: qualifying_dates.simps)

lemma flip_feel_first_sql:
  "flagged (FlipFeelRepository_hasFirstEntry_sql uid) db = Inr (holds FlipAndFeel FirstEntry uid db)"
  by (simp add: FlipFeelRepository_hasFirstEntry_sql_def first_flag_def flagged_def
      flip_feel_dates[symmetric] take1_nonempty del: qualifying_dates.simps)

lemma flip_feel_categories_sql:
  "flagged (FlipFeelRepository_hasCompletedAllCategories_sql uid cs) db = Inl operator_does_not_exist"
  by (simp add: FlipFeelRepository_hasCompletedAllCategories_sql_def flagged_def)

lemma distinct_validCategories: "distinct validCategories"
  by (simp add: validCategories_def)

lemma same_rows_same_days:
  assumes "mset rows1 = mset rows2"
  shows "sort (remdups (map f rows1)) = sort (remdups (map f rows2))"
proof -
  from assms have "set rows1 = set rows2" by (rule mset_eq_setD)
  then have "set (map f rows1) = set (map f rows2)" by simp
  then have "sorted_list_of_set (set (map f rows1)) = sorted_list_of_set (set (map f rows2))"
    by simp
  then show ?thesis by (simp only: sorted_list_of_set_sort_remdups)
qed

lemma same_rows_same_length:
  assumes "mset rows1 = mset rows2"
  shows "length rows1 = length rows2"
  using assms by (rule mset_eq_length)

lemma same_rows_same_emptiness:
  assumes "mset rows1 = mset rows2"
  shows "(rows1 = []) = (rows2 = [])"
  using assms by (metis mset_zero_iff)

lemma journal_rows_mset:
  assumes "mset [e \<leftarrow> journal_entries db1. \<not> JournalEntry.is_deleted e]
         = mset [e \<leftarrow> journal_entries db2. \<not> JournalEntry.is_deleted e]"
  shows "mset (journal_rows db1 uid) = mset (journal_rows db2 uid)"
proof -
  have split: "journal_rows db uid =
      [e \<leftarrow> [e \<leftarrow> journal_entries db. \<not> JournalEntry.is_deleted e]. JournalEntry.user_id e = uid]" for db
    by (simp add: journal_rows_def conj_commute)
  have "mset (journal_rows db1 uid) =
      filter_mset (\<lambda>e. JournalEntry.user_id e = uid) (mset [e \<leftarrow> journal_entries db1. \<not> JournalEntry.is_deleted e])"
    by (simp only: split mset_filter)
  also have "\<dots> = filter_mset (\<lambda>e. JournalEntry.user_id e = uid) (mset [e \<leftarrow> journal_entries db2. \<not> JournalEntry.is_deleted e])"
    by (simp only: assms)
  also have "\<dots> = mset (journal_rows db2 uid)"
    by (simp only: split mset_filter)
  finally show ?thesis .
qed

lemma gratitude_rows_mset:
  assumes "mset [e \<leftarrow> gratitude_entries db1. \<not> GratitudeEntry.is_deleted e]
         = mset [e \<leftarrow> gratitude_entries db2. \<not> GratitudeEntry.is_deleted e]"
  shows "mset (gratitude_rows db1 uid) = mset (gratitude_rows db2 uid)"
proof -
  have split: "gratitude_rows db uid =
      [e \<leftarrow> [e \<leftarrow> gratitude_entries db. \<not> GratitudeEntry.is_deleted e]. GratitudeEntry.user_id e = uid]" for db
    by (simp add: gratitude_rows_def conj_commute)
  have "mset (gratitude_rows db1 uid) =
      filter_mset (\<lambda>e. GratitudeEntry.user_id e = uid) (mset [e \<leftarrow> gratitude_entries db1. \<not> GratitudeEntry.is_deleted e])"
    by (simp only: split mset_filter)
  also have "\<dots> = filter_mset (\<lambda>e. GratitudeEntry.user_id e = uid) (mset [e \<leftarrow> gratitude_entries db2. \<not> GratitudeEntry.is_deleted e])"
    by (simp only: assms)
  also have "\<dots> = mset (gratitude_rows db2 uid)"
    by (simp only: split mset_filter)
  finally show ?thesis .
qed

lemma next_outage_cong: "outages w1 = outages w2 \<Longrightarrow> next_outage w1 = next_outage w2"
  by (simp add: next_outage_def)

lemma method_result_cong:
  assumes "outages w1 = outages w2" and "q (activity w1) = q (activity w2)"
  shows "fst (bind_io (AppDataSource_query q) (\<lambda>result. pure_io (first_flag result)) w1)
       = fst (bind_io (AppDataSource_query q) (\<lambda>result. pure_io (first_flag result)) w2)"
  using assms next_outage_cong[OF assms(1)] by (simp add: method_result flagged_def split: option.splits)

section \<open>The workers are the evaluation loop over their checks\<close>

lemma try_catch_rethrow: "try_catch m (\<lambda>error. throw_io error) = m"
  by (rule ext) (simp add: try_catch_def throw_io_def split: prod.splits sum.splits)

lemma then_io_pure: "then_io m (pure_io ()) = m"
  by (rule ext) (simp add: then_io_def bind_io_def pure_io_def split: prod.splits sum.splits)

lemmas worker_unfold =
  try_catch_rethrow evaluation_pass_def checks.simps
  run_rules.simps evaluate_rule_def fst_conv snd_conv Let_def then_io_pure

lemmas repository_methods =
  JournalEntryRepository_hasFirstEntry_def JournalEntryRepository_hasConsecutiveDays_def
  JournalEntryRepository_hasReachedEntryCount_def
  GratitudeEntryRepository_hasFirstEntry_def GratitudeEntryRepository_hasConsecutiveDays_def
  GratitudeEntryRepository_hasReachedEntryCount_def
  MoodCheckInRepository_hasConsecutiveDays_def
  FlipFeelRepository_hasFirstEntry_def FlipFeelRepository_hasCompletedAllCategories_def
  FlipFeelRepository_hasConsecutiveDays_def

lemma journalBadgeWorker_loop: "journalBadgeWorker uid = evaluation_pass uid (checks Journal uid)"
  unfolding journalBadgeWorker_def worker_unfold
  by (simp only: repository_methods method_flagged)

lemma gratitudeBadgeWorker_loop: "gratitudeBadgeWorker uid = evaluation_pass uid (checks Gratitude uid)"
  unfolding gratitudeBadgeWorker_def worker_unfold
  by (simp only: repository_methods method_flagged)

lemma moodBadgeWorker_loop: "moodBadgeWorker uid = evaluation_pass uid (checks MoodCheckIn uid)"
  unfolding moodBadgeWorker_def worker_unfold
  by (simp only: repository_methods method_flagged)

lemma flipAndFeelBadgeWorker_loop: "flipAndFeelBadgeWorker uid = evaluation_pass uid (checks FlipAndFeel uid)"
  unfolding flipAndFeelBadgeWorker_def worker_unfold
  by (simp only: repository_methods method_flagged)

lemma badgeWorker_loop: "badgeWorker d uid = evaluation_pass uid (checks d uid)"
  by (cases d)
    (simp_all only: badgeWorker.simps journalBadgeWorker_loop gratitudeBadgeWorker_loop
      moodBadgeWorker_loop flipAndFeelBadgeWorker_loop)

section \<open>The checks compute the predicates of the catalogue\<close>

lemma checks_Journal:
  "checks Journal uid = map (\<lambda>(b, p). (b, \<lambda>db. Inr (p db))) (rules Journal uid)"
proof -
  have first: "flagged (JournalEntryRepository_hasFirstEntry_sql uid) = (\<lambda>db. Inr (holds Journal FirstEntry uid db))"
    by (rule ext) (rule journal_first_sql)
  have streak: "flagged (JournalEntryRepository_hasConsecutiveDays_sql uid k)
      = (\<lambda>db. Inr (holds Journal (ConsecutiveDays k) uid db))" if "0 < k" "k < 2 ^ 63" for k
    by (rule ext) (rule journal_streak_sql[OF that])
  have count: "flagged (JournalEntryRepository_hasReachedEntryCount_sql uid n)
      = (\<lambda>db. Inr (holds Journal (EntryCount n) uid db))" if "- (2 ^ 63) \<le> n" "n < 2 ^ 63" for n
    by (rule ext) (rule journal_count_sql[OF that])
  show ?thesis
    by (simp add: rules_def first streak count del: holds.simps)
qed

lemma checks_Gratitude:
  "checks Gratitude uid = map (\<lambda>(b, p). (b, \<lambda>db. Inr (p db))) (rules Gratitude uid)"
proof -
  have first: "flagged (GratitudeEntryRepository_hasFirstEntry_sql uid) = (\<lambda>db. Inr (holds Gratitude FirstEntry uid db))"
    by (rule ext) (rule gratitude_first_sql)
  have streak: "flagged (GratitudeEntryRepository_hasConsecutiveDays_sql uid k)
      = (\<lambda>db. Inr (holds Gratitude (ConsecutiveDays k) uid db))" if "0 < k" "k < 2 ^ 63" for k
    by (rule ext) (rule gratitude_streak_sql[OF that])
  have count: "flagged (GratitudeEntryRepository_hasReachedEntryCount_sql uid n)
      = (\<lambda>db. Inr (holds Gratitude (EntryCount n) uid db))" if "- (2 ^ 63) \<le> n" "n < 2 ^ 63" for n
    by (rule ext) (rule gratitude_count_sql[OF that])
  show ?thesis
    by (simp add: rules_def first streak count del: holds.simps)
qed

lemma checks_MoodCheckIn:
  "checks MoodCheckIn uid = map (\<lambda>(b, p). (b, \<lambda>db. Inr (p db))) (rules MoodCheckIn uid)"
proof -
  have streak: "flagged (MoodCheckInRepository_hasConsecutiveDays_sql uid k)
      = (\<lambda>db. Inr (holds MoodCheckIn (ConsecutiveDays k) uid db))" if "0 < k" "k < 2 ^ 63" for k
    by (rule ext) (rule mood_streak_sql[OF that])
  show ?thesis
    by (simp add: rules_def streak del: holds.simps)
qed

lemma checks_FlipAndFeel:
  "checks FlipAndFeel uid =
     [(badges FLIP_AND_FEEL_FIRST, \<lambda>db. Inr (holds FlipAndFeel FirstEntry uid db)),
      (badges FLIP_AND_FEEL_ALL_CATEGORIES, \<lambda>db. Inl operator_does_not_exist),
      (badges FLIP_AND_FEEL_7_STREAK, \<lambda>db. Inr (holds FlipAndFeel (ConsecutiveDays 7) uid db))]"
proof -
  have first: "flagged (FlipFeelRepository_hasFirstEntry_sql uid) = (\<lambda>db. Inr (holds FlipAndFeel FirstEntry uid db))"
    by (rule ext) (rule flip_feel_first_sql)
  have streak: "flagged (FlipFeelRepository_hasConsecutiveDays_sql uid 7)
      = (\<lambda>db. Inr (holds FlipAndFeel (ConsecutiveDays 7) uid db))"
    by (rule ext) (rule flip_feel_streak_sql, simp_all)
  have categories: "flagged (FlipFeelRepository_hasCompletedAllCategories_sql uid validCategories)
      = (\<lambda>db. Inl operator_does_not_exist)"
    by (rule ext) (rule flip_feel_categories_sql)
  show ?thesis
    by (simp only: checks.simps first streak categories)
qed

lemma checks_names: "map fst (checks d uid) = map fst (rules d uid)"
  by (cases d) (simp_all add: rules_def)

declare checks.simps [simp del]

section \<open>The evaluation loop\<close>

lemma next_outage_grant_log [simp]: "next_outage (w\<lparr>grant_log := l\<rparr>) = next_outage w"
  by (simp add: next_outage_def)

lemma grant_eq:
  "BadgesRepository_grantBadgeByName uid b w =
     (case next_outage w of
        Some e \<Rightarrow> (Inl e, consume (w\<lparr>grant_log := grant_log w @ [(uid, b)]\<rparr>))
      | None \<Rightarrow> (Inr (), insert_grant uid b (consume (w\<lparr>grant_log := grant_log w @ [(uid, b)]\<rparr>))))"
  by (simp add: BadgesRepository_grantBadgeByName_def storage_call_eq split: option.splits)

lemma getUserBadges_eq:
  "BadgesRepository_getUserBadges uid w =
     (case next_outage w of
        Some e \<Rightarrow> (Inl e, consume w)
      | None \<Rightarrow> (Inr [r \<leftarrow> user_badges w. UserBadge.user_id r = uid], consume w))"
  by (simp add: BadgesRepository_getUserBadges_def storage_call_eq consume_def split: option.splits)

lemma evaluate_rule_eq:
  "evaluate_rule uid names (b, q) w =
     (if b \<in> names then (Inr (), w)
      else case next_outage w of
             Some e \<Rightarrow> (Inl e, consume w)
           | None \<Rightarrow>
               (case q (activity w) of
                  Inl e \<Rightarrow> (Inl e, consume w)
                | Inr ok \<Rightarrow> if ok then BadgesRepository_grantBadgeByName uid b (consume w)
                            else (Inr (), consume w)))"
  by (simp add: evaluate_rule_def award_unless_held_def bind_io_def pure_io_def query_eq
      split: option.splits sum.splits)

lemma run_rules_Cons:
  "run_rules uid names (r # rs) w =
     (case evaluate_rule uid names r w of
        (Inl e, w') \<Rightarrow> (Inl e, w')
      | (Inr u, w') \<Rightarrow> run_rules uid names rs w')"
  by (simp add: then_io_def bind_io_def)

declare run_rules.simps(2) [simp del]

lemma evaluation_pass_eq:
  "evaluation_pass uid rs w =
     (case next_outage w of
        Some e \<Rightarrow> (Inl e, consume w)
      | None \<Rightarrow> run_rules uid (grant_set w uid) rs (consume w))"
  by (simp add: evaluation_pass_def bind_io_def getUserBadges_eq grant_set_def comprehension1
      split: option.splits)

text \<open>What one check does to each component of the state.\<close>

lemma insert_grant_fields [simp]:
  "activity (insert_grant uid b w) = activity w"
  "now (insert_grant uid b w) = now w"
  "outages (insert_grant uid b w) = outages w"
  "grant_log (insert_grant uid b w) = grant_log w"
  by (simp_all add: insert_grant_def)

lemma consume_fields [simp]:
  "activity (consume w) = activity w"
  "now (consume w) = now w"
  "user_badges (consume w) = user_badges w"
  "grant_log (consume w) = grant_log w"
  "outages (consume w) = tl (outages w)"
  by (simp_all add: consume_def)

lemma evaluate_rule_activity:
  "activity (snd (evaluate_rule uid names r w)) = activity w \<and> now (snd (evaluate_rule uid names r w)) = now w"
  by (cases r) (simp add: evaluate_rule_eq grant_eq split: option.splits sum.splits)

lemma run_rules_activity:
  "activity (snd (run_rules uid names rs w)) = activity w \<and> now (snd (run_rules uid names rs w)) = now w"
proof (induction rs arbitrary: w)
  case Nil
  then show ?case by (simp add: pure_io_def)
next
  case (Cons r rs)
  show ?case
  proof (cases "evaluate_rule uid names r w")
    case (Pair res w1)
    with evaluate_rule_activity[of uid names r w] have same: "activity w1 = activity w" "now w1 = now w"
      by simp_all
    show ?thesis
    proof (cases res)
      case (Inl e)
      with Pair same show ?thesis by (simp add: run_rules_Cons)
    next
      case (Inr u)
      with Pair same Cons.IH[of w1] show ?thesis by (simp add: run_rules_Cons)
    qed
  qed
qed


text \<open>The six ways in which one check can go.\<close>

lemma evaluate_rule_cases:
  obtains
    (held) "b \<in> names" "evaluate_rule uid names (b, q) w = (Inr (), w)"
  | (query_failed) e where "b \<notin> names" "next_outage w = Some e"
      "evaluate_rule uid names (b, q) w = (Inl e, consume w)"
  | (rejected) e where "b \<notin> names" "next_outage w = None" "q (activity w) = Inl e"
      "evaluate_rule uid names (b, q) w = (Inl e, consume w)"
  | (not_due) "b \<notin> names" "next_outage w = None" "q (activity w) = Inr False"
      "evaluate_rule uid names (b, q) w = (Inr (), consume w)"
  | (grant_failed) e where "b \<notin> names" "next_outage w = None" "q (activity w) = Inr True"
      "next_outage (consume w) = Some e"
      "evaluate_rule uid names (b, q) w =
         (Inl e, consume (consume w\<lparr>grant_log := grant_log w @ [(uid, b)]\<rparr>))"
  | (granted) "b \<notin> names" "next_outage w = None" "q (activity w) = Inr True"
      "next_outage (consume w) = None"
      "evaluate_rule uid names (b, q) w =
         (Inr (), insert_grant uid b (consume (consume w\<lparr>grant_log := grant_log w @ [(uid, b)]\<rparr>)))"
proof (cases "b \<in> names")
  case True
  then show ?thesis by (intro held) (simp_all add: evaluate_rule_eq)
next
  case nh: False
  show ?thesis
  proof (cases "next_outage w")
    case (Some e)
    with nh show ?thesis by (intro query_failed[of e]) (simp_all add: evaluate_rule_eq)
  next
    case up: None
    show ?thesis
    proof (cases "q (activity w)")
      case (Inl e)
      with nh up show ?thesis by (intro rejected[of e]) (simp_all add: evaluate_rule_eq)
    next
      case (Inr ok)
      show ?thesis
      proof (cases ok)
        case False
        with nh up Inr show ?thesis by (intro not_due) (simp_all add: evaluate_rule_eq)
      next
        case yes: True
        show ?thesis
        proof (cases "next_outage (consume w)")
          case (Some e)
          with nh up Inr yes show ?thesis
            by (intro grant_failed[of e]) (simp_all add: evaluate_rule_eq grant_eq)
        next
          case None
          with nh up Inr yes show ?thesis
            by (intro granted) (simp_all add: evaluate_rule_eq grant_eq)
        qed
      qed
    qed
  qed
qed

text \<open>
  The invocations of \<open>grantBadgeByName\<close>: a prefix of the checks that are not held and whose
  query answers true, and all of them when the loop returns normally.
\<close>

lemma due_Nil [simp]: "due names [] db = []"
  by (simp add: due_def)

lemma due_Cons [simp]:
  "due names ((b, q) # rs) db =
     (if b \<notin> names \<and> q db = Inr True then b # due names rs db else due names rs db)"
  by (simp add: due_def)

lemma due_append [simp]: "due names (xs @ ys) db = due names xs db @ due names ys db"
  by (simp add: due_def)

lemma run_rules_log:
  "\<exists>gs rest. due names rs (activity w) = gs @ rest
     \<and> grant_log (snd (run_rules uid names rs w)) = grant_log w @ map (Pair uid) gs
     \<and> (fst (run_rules uid names rs w) = Inr () \<longrightarrow> rest = [])"
proof (induction rs arbitrary: w)
  case Nil
  then show ?case by (simp add: pure_io_def)
next
  case (Cons r rs)
  obtain b q where r: "r = (b, q)" by (cases r)
  have stop: ?case
    if "evaluate_rule uid names r w = (Inl e, w1)" and "grant_log w1 = grant_log w" for e w1
  proof -
    have "due names (r # rs) (activity w) = [] @ due names (r # rs) (activity w)" by simp
    moreover have "grant_log (snd (run_rules uid names (r # rs) w)) = grant_log w @ map (Pair uid) []"
      using that by (simp add: run_rules_Cons)
    moreover have "fst (run_rules uid names (r # rs) w) \<noteq> Inr ()"
      using that by (simp add: run_rules_Cons)
    ultimately show ?thesis by blast
  qed
  have continue: ?case
    if step: "evaluate_rule uid names r w = (Inr (), w1)"
      and act: "activity w1 = activity w"
      and log: "grant_log w1 = grant_log w @ map (Pair uid) (due names [r] (activity w))"
    for w1
  proof -
    from Cons.IH[of w1] obtain gs rest where
      ih: "due names rs (activity w1) = gs @ rest"
        "grant_log (snd (run_rules uid names rs w1)) = grant_log w1 @ map (Pair uid) gs"
        "fst (run_rules uid names rs w1) = Inr () \<longrightarrow> rest = []"
      by blast
    have run: "run_rules uid names (r # rs) w = run_rules uid names rs w1"
      by (simp add: run_rules_Cons step)
    have "due names (r # rs) (activity w) = due names [r] (activity w) @ due names rs (activity w)"
      using due_append[of names "[r]" rs "activity w"] by simp
    then have "due names (r # rs) (activity w) = (due names [r] (activity w) @ gs) @ rest"
      using ih(1) by (simp add: act)
    moreover have "grant_log (snd (run_rules uid names (r # rs) w))
        = grant_log w @ map (Pair uid) (due names [r] (activity w) @ gs)"
      by (simp only: run ih(2) log map_append append_assoc)
    ultimately show ?thesis using ih(3) unfolding run by blast
  qed
  show ?case
  proof (cases rule: evaluate_rule_cases[of b names uid q w])
    case held
    then show ?thesis by (intro continue[of w]) (simp_all add: r)
  next
    case (query_failed e)
    then show ?thesis by (intro stop[of e "consume w"]) (simp_all add: r)
  next
    case (rejected e)
    then show ?thesis by (intro stop[of e "consume w"]) (simp_all add: r)
  next
    case not_due
    then show ?thesis by (intro continue[of "consume w"]) (simp_all add: r)
  next
    case (grant_failed e)
    have "due names (r # rs) (activity w) = [b] @ due names rs (activity w)"
      using grant_failed by (simp add: r)
    moreover have "grant_log (snd (run_rules uid names (r # rs) w)) = grant_log w @ map (Pair uid) [b]"
      using grant_failed by (simp add: run_rules_Cons r consume_def)
    moreover have "fst (run_rules uid names (r # rs) w) \<noteq> Inr ()"
      using grant_failed by (simp add: run_rules_Cons r)
    ultimately show ?thesis by blast
  next
    case granted
    then show ?thesis
      by (intro continue[of "insert_grant uid b (consume (consume w\<lparr>grant_log := grant_log w @ [(uid, b)]\<rparr>))"])
        (simp_all add: r consume_def)
  qed
qed

subsection \<open>Calls to the data source\<close>

lemma calls_answered_refl: "calls_answered w w"
  by (simp add: calls_answered_def)

lemma calls_answered_trans:
  "calls_answered w w1 \<Longrightarrow> calls_answered w1 w2 \<Longrightarrow> calls_answered w w2"
  unfolding calls_answered_def
proof (elim exE conjE)
  fix pre1 pre2
  assume "outages w = pre1 @ outages w1" "set pre1 \<subseteq> {None}"
    "outages w1 = pre2 @ outages w2" "set pre2 \<subseteq> {None}"
  then have "outages w = (pre1 @ pre2) @ outages w2 \<and> set (pre1 @ pre2) \<subseteq> {None}"
    by simp
  then show "\<exists>pre. outages w = pre @ outages w2 \<and> set pre \<subseteq> {None}" by blast
qed

lemma calls_answered_then_failed:
  "calls_answered w w1 \<Longrightarrow> call_failed e w1 w2 \<Longrightarrow> call_failed e w w2"
  unfolding calls_answered_def call_failed_def
proof (elim exE conjE)
  fix pre1 pre2
  assume "outages w = pre1 @ outages w1" "set pre1 \<subseteq> {None}"
    "outages w1 = pre2 @ Some e # outages w2" "set pre2 \<subseteq> {None}"
  then have "outages w = (pre1 @ pre2) @ Some e # outages w2 \<and> set (pre1 @ pre2) \<subseteq> {None}"
    by simp
  then show "\<exists>pre. outages w = pre @ Some e # outages w2 \<and> set pre \<subseteq> {None}" by blast
qed

lemma consume_answered:
  assumes "next_outage w = None" and "outages w' = outages (consume w)"
  shows "calls_answered w w'"
proof (cases "outages w")
  case Nil
  with assms(2) have "outages w = [] @ outages w'" by simp
  then show ?thesis unfolding calls_answered_def by (metis empty_set empty_subsetI)
next
  case (Cons x rest)
  with assms have "outages w = [None] @ outages w'" by (simp add: next_outage_def)
  then show ?thesis unfolding calls_answered_def by (metis empty_set insert_subset list.simps(15) subset_refl)
qed

lemma consume_failed:
  assumes "next_outage w = Some e" and "outages w' = outages (consume w)"
  shows "call_failed e w w'"
proof (cases "outages w")
  case Nil
  with assms(1) show ?thesis by (simp add: next_outage_def)
next
  case (Cons x rest)
  with assms have "outages w = [] @ Some e # outages w'" by (simp add: next_outage_def)
  then show ?thesis unfolding call_failed_def by (metis empty_set empty_subsetI)
qed

lemma call_failed_not_answered:
  assumes "call_failed e w w'"
  shows "\<not> calls_answered w w'"
proof
  assume "calls_answered w w'"
  then obtain pre' where pre': "outages w = pre' @ outages w'" "set pre' \<subseteq> {None}"
    unfolding calls_answered_def by blast
  from assms obtain pre where pre: "outages w = pre @ Some e # outages w'"
    unfolding call_failed_def by blast
  from pre pre'(1) have "(pre @ [Some e]) @ outages w' = pre' @ outages w'" by simp
  then have "pre' = pre @ [Some e]" by (simp only: append_same_eq)
  with pre'(2) show False by simp
qed

lemma evaluate_rule_calls:
  "(case evaluate_rule uid names r w of
      (Inr u, w') \<Rightarrow> calls_answered w w'
    | (Inl e, w') \<Rightarrow> call_failed e w w' \<or> calls_answered w w')"
proof -
  obtain b q where r: "r = (b, q)" by (cases r)
  show ?thesis
  proof (cases rule: evaluate_rule_cases[of b names uid q w])
    case held
    then show ?thesis by (simp add: r calls_answered_refl)
  next
    case (query_failed e)
    then show ?thesis by (simp add: r consume_failed)
  next
    case (rejected e)
    then show ?thesis by (simp add: r consume_answered)
  next
    case not_due
    then show ?thesis by (simp add: r consume_answered)
  next
    case (grant_failed e)
    have "calls_answered w (consume w)"
      using grant_failed(2) by (rule consume_answered) simp
    moreover have "call_failed e (consume w) (consume (consume w\<lparr>grant_log := grant_log w @ [(uid, b)]\<rparr>))"
      using grant_failed(4) by (rule consume_failed) (simp add: consume_def)
    ultimately show ?thesis
      using grant_failed(5) by (simp add: r calls_answered_then_failed)
  next
    case granted
    have "calls_answered w (consume w)"
      using granted(2) by (rule consume_answered) simp
    moreover have "calls_answered (consume w)
        (insert_grant uid b (consume (consume w\<lparr>grant_log := grant_log w @ [(uid, b)]\<rparr>)))"
      using granted(4) by (rule consume_answered) (simp add: consume_def)
    ultimately show ?thesis
      using granted(5) by (simp add: r calls_answered_trans)
  qed
qed

lemma run_rules_calls:
  "(case run_rules uid names rs w of
      (Inr u, w') \<Rightarrow> calls_answered w w'
    | (Inl e, w') \<Rightarrow> call_failed e w w' \<or> calls_answered w w')"
proof (induction rs arbitrary: w)
  case Nil
  then show ?case by (simp add: pure_io_def calls_answered_refl)
next
  case (Cons r rs)
  show ?case
  proof (cases "evaluate_rule uid names r w")
    case (Pair res w1)
    show ?thesis
    proof (cases res)
      case (Inl e)
      with Pair evaluate_rule_calls[where uid = uid and names = names and r = r and w = w] show ?thesis
        by (simp add: run_rules_Cons)
    next
      case (Inr u)
      with Pair evaluate_rule_calls[where uid = uid and names = names and r = r and w = w] have first: "calls_answered w w1"
        by simp
      show ?thesis
      proof (cases "run_rules uid names rs w1")
        case rest: (Pair res2 w2)
        with Cons.IH[where w = w1] first Pair Inr show ?thesis
          by (cases res2) (auto simp: run_rules_Cons intro: calls_answered_trans calls_answered_then_failed)
      qed
    qed
  qed
qed

lemma evaluation_pass_calls:
  "(case evaluation_pass uid rs w of
      (Inr u, w') \<Rightarrow> calls_answered w w'
    | (Inl e, w') \<Rightarrow> call_failed e w w' \<or> calls_answered w w')"
proof (cases "next_outage w")
  case (Some e)
  then show ?thesis by (simp add: evaluation_pass_eq consume_failed)
next
  case None
  then have first: "calls_answered w (consume w)" by (rule consume_answered) simp
  show ?thesis
  proof (cases "run_rules uid (grant_set w uid) rs (consume w)")
    case (Pair res w')
    with run_rules_calls[where uid = uid and names = "grant_set w uid" and rs = rs and w = "consume w"] first None show ?thesis
      by (cases res) (auto simp: evaluation_pass_eq intro: calls_answered_trans calls_answered_then_failed)
  qed
qed

lemma consumed_answered:
  assumes "calls_answered w w'"
  shows "set (consumed w w') \<subseteq> {None}"
proof -
  from assms obtain pre where "outages w = pre @ outages w'" "set pre \<subseteq> {None}"
    unfolding calls_answered_def by blast
  then show ?thesis by (simp add: consumed_def)
qed

lemma consumed_failed:
  assumes "call_failed e w w'"
  shows "consumed w w' = takeWhile (\<lambda>x. x = None) (outages w) @ [Some e]"
proof -
  from assms obtain pre where pre: "outages w = pre @ Some e # outages w'" "set pre \<subseteq> {None}"
    unfolding call_failed_def by blast
  then have "consumed w w' = pre @ [Some e]" by (simp add: consumed_def)
  moreover from pre(2) have "takeWhile (\<lambda>x. x = None) (pre @ Some e # outages w') = pre"
    by (subst takeWhile_append2) auto
  ultimately show ?thesis by (simp add: pre(1))
qed

lemma failure_consumed:
  assumes "Some e \<in> set (consumed w w')"
    and "call_failed e' w w' \<or> calls_answered w w'"
  shows "e' = e \<and> call_failed e w w'"
proof -
  from assms(2) show ?thesis
  proof
    assume failed: "call_failed e' w w'"
    then have "consumed w w' = takeWhile (\<lambda>x. x = None) (outages w) @ [Some e']"
      by (rule consumed_failed)
    with assms(1) have "Some e \<in> set (takeWhile (\<lambda>x. x = None) (outages w)) \<or> e = e'"
      by auto
    moreover have "Some e \<notin> set (takeWhile (\<lambda>x. x = None) (outages w))"
      using set_takeWhileD by fastforce
    ultimately show ?thesis using failed by simp
  next
    assume "calls_answered w w'"
    then have "set (consumed w w') \<subseteq> {None}" by (rule consumed_answered)
    with assms(1) show ?thesis by auto
  qed
qed

subsection \<open>The ledger\<close>

lemma granted_iff: "granted (user_badges w) uid b \<longleftrightarrow> b \<in> grant_set w uid"
  by (auto simp: granted_def grant_set_def filter_empty_conv)

lemma granted_append:
  "granted (ledger @ [grant_record uid t b]) uid' b' \<longleftrightarrow> granted ledger uid' b' \<or> (uid' = uid \<and> b' = b)"
  by (auto simp: granted_def grant_record_def filter_empty_conv)

lemma insert_grant_new:
  "\<not> granted (user_badges w) uid b \<Longrightarrow>
     user_badges (insert_grant uid b w) = user_badges w @ [grant_record uid (now w) b]"
  by (simp add: insert_grant_def)

lemma insert_grant_held:
  "granted (user_badges w) uid b \<Longrightarrow> insert_grant uid b w = w"
  by (simp add: insert_grant_def)

lemma call_answered_outages [simp]: "call_answered (outages w) = (next_outage w = None)"
  by (simp add: call_answered_def next_outage_def split: list.splits)

lemma call_answered_tl [simp]: "call_answered (tl (outages w)) = (next_outage (consume w) = None)"
  by (simp add: call_answered_def next_outage_def consume_def split: list.splits)

lemma completed_checks_prefix: "\<exists>rest. cs = completed_checks names db os cs @ rest"
proof (induction cs arbitrary: os)
  case Nil
  then show ?case by simp
next
  case (Cons c cs)
  obtain b q where c: "c = (b, q)" by (cases c)
  have stop: "\<exists>rest. c # cs = [] @ rest" by simp
  have continue: "\<exists>rest. c # cs = (c # completed_checks names db os' cs) @ rest" for os'
    using Cons.IH[of os'] by auto
  show ?case
    unfolding c completed_checks.simps
    using stop continue[of os] continue[of "tl os"] continue[of "tl (tl os)"]
    by (auto simp: c split: sum.splits)
qed

lemma completed_checks_not_held:
  "cs = completed_checks names db os cs @ (b, q) # later \<Longrightarrow> b \<notin> names"
proof (induction cs arbitrary: os)
  case Nil
  then show ?case by simp
next
  case (Cons c cs)
  obtain b' q' where c: "c = (b', q')" by (cases c)
  show ?case
  proof (cases "completed_checks names db os (c # cs)")
    case Nil
    with Cons.prems have "c = (b, q)" by simp
    with Nil show ?thesis by (auto simp: c split: if_splits)
  next
    case (Cons x xs)
    then obtain os' where "completed_checks names db os (c # cs) = c # completed_checks names db os' cs"
      by (auto simp: c split: if_splits sum.splits)
    with Cons.prems have "cs = completed_checks names db os' cs @ (b, q) # later" by simp
    then show ?thesis by (rule Cons.IH)
  qed
qed

text \<open>
  The ledger after the loop holds the grants of the checks completed before the first
  failure, whatever the loop returns; and the loop returns normally exactly when every
  check is completed.
\<close>

lemma run_rules_completed:
  assumes "distinct (map fst cs)"
    and "\<forall>b\<in>fst ` set cs. b \<notin> names \<longrightarrow> \<not> granted (user_badges w) uid b"
  shows "user_badges (snd (run_rules uid names cs w))
           = user_badges w @ map (grant_record uid (now w))
               (due names (completed_checks names (activity w) (outages w) cs) (activity w))
       \<and> (fst (run_rules uid names cs w) = Inr ())
           = (completed_checks names (activity w) (outages w) cs = cs)"
  using assms
proof (induction cs arbitrary: w)
  case Nil
  then show ?case by (simp add: pure_io_def)
next
  case (Cons r rs)
  obtain b q where r: "r = (b, q)" by (cases r)
  from Cons.prems(1) have d: "distinct (map fst rs)" and fresh: "b \<notin> fst ` set rs"
    by (simp_all add: r)
  have stop: ?case
    if "evaluate_rule uid names r w = (Inl e, w1)" and "user_badges w1 = user_badges w"
      and "completed_checks names (activity w) (outages w) (r # rs) = []" for e w1
    using that by (simp add: run_rules_Cons)
  have continue: ?case
    if step: "evaluate_rule uid names r w = (Inr (), w1)"
      and act: "activity w1 = activity w" "now w1 = now w"
      and led: "user_badges w1 = user_badges w @ map (grant_record uid (now w)) (due names [r] (activity w))"
      and ok: "\<forall>b\<in>fst ` set rs. b \<notin> names \<longrightarrow> \<not> granted (user_badges w1) uid b"
      and ev: "completed_checks names (activity w) (outages w) (r # rs)
                 = r # completed_checks names (activity w1) (outages w1) rs"
    for w1
  proof -
    let ?ev = "completed_checks names (activity w1) (outages w1) rs"
    from Cons.IH[OF d ok] have
      ih: "user_badges (snd (run_rules uid names rs w1))
             = user_badges w1 @ map (grant_record uid (now w1)) (due names ?ev (activity w1))"
        "(fst (run_rules uid names rs w1) = Inr ()) = (?ev = rs)"
      by blast+
    have run: "run_rules uid names (r # rs) w = run_rules uid names rs w1"
      by (simp add: run_rules_Cons step)
    have "due names (r # ?ev) (activity w) = due names [r] (activity w) @ due names ?ev (activity w)"
      using due_append[of names "[r]" ?ev "activity w"] by simp
    then have "user_badges (snd (run_rules uid names (r # rs) w))
        = user_badges w @ map (grant_record uid (now w)) (due names (r # ?ev) (activity w))"
      by (simp only: run ih(1) led act map_append append_assoc)
    moreover have "(fst (run_rules uid names (r # rs) w) = Inr ()) = (r # ?ev = r # rs)"
      by (simp only: run ih(2) list.inject simp_thms)
    ultimately show ?thesis by (simp only: ev)
  qed
  show ?case
  proof (cases rule: evaluate_rule_cases[of b names uid q w])
    case held
    show ?thesis
    proof (rule continue)
      show "evaluate_rule uid names r w = (Inr (), w)" using held by (simp add: r)
      show "user_badges w = user_badges w @ map (grant_record uid (now w)) (due names [r] (activity w))"
        using held by (simp add: r)
      show "\<forall>b\<in>fst ` set rs. b \<notin> names \<longrightarrow> \<not> granted (user_badges w) uid b"
        using Cons.prems(2) by simp
      show "completed_checks names (activity w) (outages w) (r # rs)
           = r # completed_checks names (activity w) (outages w) rs"
        using held by (simp add: r)
    qed simp_all
  next
    case (query_failed e)
    then show ?thesis by (intro stop[of e "consume w"]) (simp_all add: r)
  next
    case (rejected e)
    then show ?thesis by (intro stop[of e "consume w"]) (simp_all add: r)
  next
    case not_due
    show ?thesis
    proof (rule continue)
      show "evaluate_rule uid names r w = (Inr (), consume w)" using not_due by (simp add: r)
      show "user_badges (consume w) = user_badges w @ map (grant_record uid (now w)) (due names [r] (activity w))"
        using not_due by (simp add: r)
      show "\<forall>b\<in>fst ` set rs. b \<notin> names \<longrightarrow> \<not> granted (user_badges (consume w)) uid b"
        using Cons.prems(2) by simp
      show "completed_checks names (activity w) (outages w) (r # rs)
           = r # completed_checks names (activity (consume w)) (outages (consume w)) rs"
        using not_due by (simp add: r)
    qed simp_all
  next
    case (grant_failed e)
    then show ?thesis
      by (intro stop[of e "consume (consume w\<lparr>grant_log := grant_log w @ [(uid, b)]\<rparr>)"])
        (simp_all add: r consume_def)
  next
    case granted
    let ?w2 = "insert_grant uid b (consume (consume w\<lparr>grant_log := grant_log w @ [(uid, b)]\<rparr>))"
    from Cons.prems(2) granted(1) have new: "\<not> granted (user_badges w) uid b"
      by (simp add: r)
    then have led: "user_badges ?w2 = user_badges w @ [grant_record uid (now w) b]"
      by (simp add: insert_grant_def consume_def)
    have os: "outages ?w2 = tl (tl (outages w))"
      by (simp add: consume_def)
    show ?thesis
    proof (rule continue)
      show "evaluate_rule uid names r w = (Inr (), ?w2)" using granted by (simp add: r)
      show "user_badges ?w2 = user_badges w @ map (grant_record uid (now w)) (due names [r] (activity w))"
        using granted led by (simp add: r)
      show "\<forall>b'\<in>fst ` set rs. b' \<notin> names \<longrightarrow> \<not> granted (user_badges ?w2) uid b'"
        using Cons.prems(2) fresh by (auto simp: led granted_append)
      show "completed_checks names (activity w) (outages w) (r # rs)
           = r # completed_checks names (activity ?w2) (outages ?w2) rs"
        using granted by (simp add: r os consume_def)
    qed (simp_all add: consume_def)
  qed
qed

text \<open>
  An error returned by the loop is the error of a call thrown by the data source, or the
  rejection of the query of the first check that is not completed.
\<close>

lemma run_rules_error:
  assumes "fst (run_rules uid names cs w) = Inl e"
  shows "call_failed e w (snd (run_rules uid names cs w))
       \<or> (\<exists>b q later. cs = completed_checks names (activity w) (outages w) cs @ (b, q) # later
             \<and> q (activity w) = Inl e)"
  using assms
proof (induction cs arbitrary: w)
  case Nil
  then show ?case by (simp add: pure_io_def)
next
  case (Cons r rs)
  obtain b q where r: "r = (b, q)" by (cases r)
  have continue: ?case
    if step: "evaluate_rule uid names r w = (Inr (), w1)"
      and act: "activity w1 = activity w"
      and calls: "calls_answered w w1"
      and ev: "completed_checks names (activity w) (outages w) (r # rs)
                 = r # completed_checks names (activity w1) (outages w1) rs"
    for w1
  proof -
    have run: "run_rules uid names (r # rs) w = run_rules uid names rs w1"
      by (simp add: run_rules_Cons step)
    with Cons.prems have "fst (run_rules uid names rs w1) = Inl e" by simp
    from Cons.IH[OF this] show ?thesis
    proof
      assume "call_failed e w1 (snd (run_rules uid names rs w1))"
      with calls have "call_failed e w (snd (run_rules uid names rs w1))"
        by (rule calls_answered_then_failed)
      then show ?thesis by (simp only: run simp_thms)
    next
      assume "\<exists>b q later. rs = completed_checks names (activity w1) (outages w1) rs @ (b, q) # later
          \<and> q (activity w1) = Inl e"
      then obtain b' q' later where
        "rs = completed_checks names (activity w1) (outages w1) rs @ (b', q') # later"
        "q' (activity w1) = Inl e"
        by blast
      then have "r # rs = completed_checks names (activity w) (outages w) (r # rs) @ (b', q') # later
          \<and> q' (activity w) = Inl e"
        by (simp add: ev act)
      then show ?thesis by blast
    qed
  qed
  show ?case
  proof (cases rule: evaluate_rule_cases[of b names uid q w])
    case held
    then show ?thesis
      by (intro continue[of w]) (simp_all add: r calls_answered_refl)
  next
    case (query_failed e')
    with Cons.prems have "e' = e" by (simp add: run_rules_Cons r)
    with query_failed have "call_failed e w (snd (run_rules uid names (r # rs) w))"
      by (simp add: run_rules_Cons r consume_failed)
    then show ?thesis by blast
  next
    case (rejected e')
    with Cons.prems have "e' = e" by (simp add: run_rules_Cons r)
    with rejected have "r # rs = completed_checks names (activity w) (outages w) (r # rs) @ (b, q) # rs
        \<and> q (activity w) = Inl e"
      by (simp add: r)
    then show ?thesis by blast
  next
    case not_due
    then show ?thesis
      by (intro continue[of "consume w"]) (simp_all add: r consume_answered)
  next
    case (grant_failed e')
    with Cons.prems have same: "e' = e" by (simp add: run_rules_Cons r)
    have "calls_answered w (consume w)"
      using grant_failed(2) by (rule consume_answered) simp
    moreover have "call_failed e' (consume w) (consume (consume w\<lparr>grant_log := grant_log w @ [(uid, b)]\<rparr>))"
      using grant_failed(4) by (rule consume_failed) (simp add: consume_def)
    ultimately have "call_failed e w (snd (run_rules uid names (r # rs) w))"
      using grant_failed(5) same by (simp add: run_rules_Cons r calls_answered_then_failed)
    then show ?thesis by blast
  next
    case granted
    let ?w2 = "insert_grant uid b (consume (consume w\<lparr>grant_log := grant_log w @ [(uid, b)]\<rparr>))"
    have "calls_answered w (consume w)"
      using granted(2) by (rule consume_answered) simp
    moreover have "calls_answered (consume w) ?w2"
      using granted(4) by (rule consume_answered) (simp add: consume_def)
    ultimately have calls: "calls_answered w ?w2" by (rule calls_answered_trans)
    have os: "outages ?w2 = tl (tl (outages w))"
      by (simp add: consume_def)
    show ?thesis
    proof (rule continue)
      show "evaluate_rule uid names r w = (Inr (), ?w2)" using granted by (simp add: r)
      show "completed_checks names (activity w) (outages w) (r # rs)
           = r # completed_checks names (activity ?w2) (outages ?w2) rs"
        using granted by (simp add: r os consume_def)
      show "calls_answered w ?w2" by (rule calls)
    qed (simp_all add: consume_def)
  qed
qed

text \<open>The same facts about a whole pass: the load of the grant set, then the loop.\<close>

lemma evaluation_pass_log:
  "\<exists>gs rest. due (grant_set w uid) rs (activity w) = gs @ rest
     \<and> grant_log (snd (evaluation_pass uid rs w)) = grant_log w @ map (Pair uid) gs
     \<and> (fst (evaluation_pass uid rs w) = Inr () \<longrightarrow> rest = [])"
proof (cases "next_outage w")
  case (Some e)
  have "due (grant_set w uid) rs (activity w) = [] @ due (grant_set w uid) rs (activity w)" by simp
  moreover have "grant_log (snd (evaluation_pass uid rs w)) = grant_log w @ map (Pair uid) []"
    using Some by (simp add: evaluation_pass_eq)
  moreover have "fst (evaluation_pass uid rs w) \<noteq> Inr ()"
    using Some by (simp add: evaluation_pass_eq)
  ultimately show ?thesis by blast
next
  case None
  with run_rules_log[of "grant_set w uid" rs "consume w" uid] show ?thesis
    by (simp add: evaluation_pass_eq)
qed

lemma evaluation_pass_activity:
  "activity (snd (evaluation_pass uid rs w)) = activity w \<and> now (snd (evaluation_pass uid rs w)) = now w"
  using run_rules_activity[of uid "grant_set w uid" rs "consume w"]
  by (simp add: evaluation_pass_eq split: option.splits)

lemma distinct_rule_names: "distinct (map fst (rules d uid))"
  by (cases d) (simp_all add: rules_def)

lemma distinct_check_names: "distinct (map fst (checks d uid))"
  by (simp only: checks_names distinct_rule_names)

lemma checks_nonempty: "checks d uid \<noteq> []"
  by (cases d) (simp_all add: checks.simps)

lemma newly_qualifying_due:
  "newly_qualifying d uid w = due (grant_set w uid) (map (\<lambda>(b, p). (b, \<lambda>db. Inr (p db))) (rules d uid)) (activity w)"
  by (simp add: newly_qualifying_def due_def comprehension2 split_def o_def)

lemma remaining_rules_split:
  "checks d uid = evaluated_before_failure d uid w @ remaining_rules d uid w"
proof (cases "call_answered (outages w)")
  case True
  let ?ev = "completed_checks (grant_set w uid) (activity w) (tl (outages w)) (checks d uid)"
  from completed_checks_prefix[of "checks d uid" "grant_set w uid" "activity w" "tl (outages w)"]
  obtain rest where rest: "checks d uid = ?ev @ rest" by blast
  then have "drop (length ?ev) (checks d uid) = rest"
    by (metis append_eq_conv_conj)
  with rest True show ?thesis
    by (simp only: evaluated_before_failure_def remaining_rules_def if_True)
next
  case False
  then show ?thesis
    by (simp only: evaluated_before_failure_def remaining_rules_def if_False list.size drop_0 append_Nil)
qed

lemma pass_completed:
  "user_badges (snd (badgeWorker d uid w))
     = user_badges w @ map (grant_record uid (now w))
         (due (grant_set w uid) (evaluated_before_failure d uid w) (activity w))
   \<and> (fst (badgeWorker d uid w) = Inr ()) = (evaluated_before_failure d uid w = checks d uid)"
proof (cases "next_outage w")
  case (Some e)
  then have "evaluated_before_failure d uid w = []"
    by (simp add: evaluated_before_failure_def)
  with Some checks_nonempty[of d uid] show ?thesis
    by (auto simp: badgeWorker_loop evaluation_pass_eq)
next
  case None
  have fresh: "\<forall>b\<in>fst ` set (checks d uid).
      b \<notin> grant_set w uid \<longrightarrow> \<not> granted (user_badges (consume w)) uid b"
    by (simp add: granted_iff[symmetric])
  from None have ev: "evaluated_before_failure d uid w
      = completed_checks (grant_set w uid) (activity (consume w)) (outages (consume w)) (checks d uid)"
    by (simp add: evaluated_before_failure_def)
  from run_rules_completed[OF distinct_check_names fresh] None show ?thesis
    by (simp add: badgeWorker_loop evaluation_pass_eq ev del: call_answered_tl)
qed

lemma pass_error:
  assumes "fst (badgeWorker d uid w) = Inl e"
  shows "call_failed e w (snd (badgeWorker d uid w))
       \<or> (\<exists>b q later. remaining_rules d uid w = (b, q) # later \<and> b \<notin> grant_set w uid
             \<and> q (activity w) = Inl e)"
proof (cases "next_outage w")
  case (Some e')
  with assms have "e' = e" by (simp add: badgeWorker_loop evaluation_pass_eq)
  with Some have "call_failed e w (snd (badgeWorker d uid w))"
    by (simp add: badgeWorker_loop evaluation_pass_eq consume_failed)
  then show ?thesis by blast
next
  case None
  let ?names = "grant_set w uid"
  let ?run = "run_rules uid ?names (checks d uid) (consume w)"
  from None have pass: "badgeWorker d uid w = ?run"
    by (simp add: badgeWorker_loop evaluation_pass_eq)
  from None have ev: "evaluated_before_failure d uid w
      = completed_checks ?names (activity (consume w)) (outages (consume w)) (checks d uid)"
    by (simp add: evaluated_before_failure_def)
  from assms pass have "fst ?run = Inl e" by simp
  from run_rules_error[OF this] show ?thesis
  proof
    assume "call_failed e (consume w) (snd ?run)"
    moreover have "calls_answered w (consume w)"
      using None by (rule consume_answered) simp
    ultimately have "call_failed e w (snd ?run)"
      using calls_answered_then_failed by blast
    then show ?thesis by (simp only: pass simp_thms)
  next
    assume "\<exists>b q later. checks d uid
        = completed_checks ?names (activity (consume w)) (outages (consume w)) (checks d uid) @ (b, q) # later
        \<and> q (activity (consume w)) = Inl e"
    then obtain b q later where
      split: "checks d uid = evaluated_before_failure d uid w @ (b, q) # later"
      and rejected: "q (activity w) = Inl e"
      unfolding ev[symmetric] by auto
    from split have "remaining_rules d uid w = (b, q) # later"
      unfolding remaining_rules_def by (metis append_eq_conv_conj)
    moreover from split have "b \<notin> ?names"
      unfolding ev by (rule completed_checks_not_held)
    ultimately show ?thesis using rejected by blast
  qed
qed

lemma pass_calls:
  "(fst (badgeWorker d uid w) = Inr () \<longrightarrow> calls_answered w (snd (badgeWorker d uid w)))
   \<and> (\<forall>e. fst (badgeWorker d uid w) = Inl e \<longrightarrow>
         call_failed e w (snd (badgeWorker d uid w)) \<or> calls_answered w (snd (badgeWorker d uid w)))"
  using evaluation_pass_calls[where uid = uid and rs = "checks d uid" and w = w]
  unfolding badgeWorker_loop
  by (cases "evaluation_pass uid (checks d uid) w") (auto split: sum.splits)

subsection \<open>One record per badge\<close>

lemma granted_key:
  "granted ledger uid b \<longleftrightarrow> (uid, b) \<in> set (map (\<lambda>r. (UserBadge.user_id r, badge_name r)) ledger)"
  by (auto simp: granted_def filter_empty_conv)

lemma insert_grant_inv:
  assumes "one_record_per_badge (user_badges w)"
  shows "one_record_per_badge (user_badges (insert_grant uid b w))"
proof (cases "granted (user_badges w) uid b")
  case True
  with assms show ?thesis by (simp add: insert_grant_held)
next
  case new: False
  then have fresh: "(uid, b) \<notin> set (map (\<lambda>r. (UserBadge.user_id r, badge_name r)) (user_badges w))"
    by (simp only: granted_key simp_thms)
  have "user_badges (insert_grant uid b w) = user_badges w @ [grant_record uid (now w) b]"
    using new by (rule insert_grant_new)
  with assms fresh show ?thesis
    by (simp add: one_record_per_badge_def grant_record_def)
qed

lemma grant_ledger:
  "user_badges (snd (BadgesRepository_grantBadgeByName uid b w))
     = (if next_outage w = None then user_badges (insert_grant uid b w) else user_badges w)"
  by (simp add: grant_eq insert_grant_def consume_def split: option.splits)

lemma grant_inv:
  assumes "one_record_per_badge (user_badges w)"
  shows "one_record_per_badge (user_badges (snd (BadgesRepository_grantBadgeByName uid b w)))"
  using assms insert_grant_inv[OF assms, of uid b] by (simp add: grant_ledger)

lemma grant_sequence_inv:
  "one_record_per_badge (user_badges w) \<Longrightarrow> one_record_per_badge (user_badges (grant_sequence ops w))"
proof (induction ops arbitrary: w)
  case Nil
  then show ?case by simp
next
  case (Cons op ops)
  obtain uid b where op: "op = (uid, b)" by (cases op)
  from Cons.prems have "one_record_per_badge (user_badges (snd (BadgesRepository_grantBadgeByName uid b w)))"
    by (rule grant_inv)
  then show ?case unfolding op grant_sequence.simps by (rule Cons.IH)
qed

lemma evaluate_rule_inv:
  assumes "one_record_per_badge (user_badges w)"
  shows "one_record_per_badge (user_badges (snd (evaluate_rule uid names r w)))"
proof -
  obtain b q where r: "r = (b, q)" by (cases r)
  show ?thesis
  proof (cases rule: evaluate_rule_cases[of b names uid q w])
    case granted
    have "one_record_per_badge (user_badges (consume (consume w\<lparr>grant_log := grant_log w @ [(uid, b)]\<rparr>)))"
      using assms by (simp add: consume_def)
    then have "one_record_per_badge (user_badges
        (insert_grant uid b (consume (consume w\<lparr>grant_log := grant_log w @ [(uid, b)]\<rparr>))))"
      by (rule insert_grant_inv)
    with granted(5) show ?thesis by (simp add: r)
  qed (use assms in \<open>simp_all add: r consume_def\<close>)
qed

lemma run_rules_inv:
  "one_record_per_badge (user_badges w) \<Longrightarrow>
     one_record_per_badge (user_badges (snd (run_rules uid names rs w)))"
proof (induction rs arbitrary: w)
  case Nil
  then show ?case by (simp add: pure_io_def)
next
  case (Cons r rs)
  from Cons.prems have step: "one_record_per_badge (user_badges (snd (evaluate_rule uid names r w)))"
    by (rule evaluate_rule_inv)
  show ?case
  proof (cases "evaluate_rule uid names r w")
    case (Pair res w1)
    with step have inv1: "one_record_per_badge (user_badges w1)" by simp
    show ?thesis
    proof (cases res)
      case (Inl e)
      with Pair inv1 show ?thesis by (simp add: run_rules_Cons)
    next
      case (Inr u)
      with Pair Cons.IH[OF inv1] show ?thesis by (simp add: run_rules_Cons)
    qed
  qed
qed

lemma evaluation_pass_inv:
  assumes "one_record_per_badge (user_badges w)"
  shows "one_record_per_badge (user_badges (snd (evaluation_pass uid rs w)))"
proof (cases "next_outage w")
  case (Some e)
  with assms show ?thesis by (simp add: evaluation_pass_eq)
next
  case None
  have "one_record_per_badge (user_badges (consume w))" using assms by simp
  from run_rules_inv[OF this] None show ?thesis by (simp add: evaluation_pass_eq)
qed

lemma at_most_one_record:
  assumes "one_record_per_badge ledger"
  shows "length [r \<leftarrow> ledger. UserBadge.user_id r = uid \<and> badge_name r = b] \<le> 1"
  using assms unfolding one_record_per_badge_def
proof (induction ledger)
  case Nil
  then show ?case by simp
next
  case (Cons r ledger)
  from Cons.prems have tail: "distinct (map (\<lambda>r. (UserBadge.user_id r, badge_name r)) ledger)"
    by simp
  show ?case
  proof (cases "UserBadge.user_id r = uid \<and> badge_name r = b")
    case True
    with Cons.prems have "(uid, b) \<notin> set (map (\<lambda>r. (UserBadge.user_id r, badge_name r)) ledger)"
      by auto
    then have "[r \<leftarrow> ledger. UserBadge.user_id r = uid \<and> badge_name r = b] = []"
      by (auto simp: filter_empty_conv)
    with True show ?thesis by simp
  next
    case False
    with Cons.IH[OF tail] show ?thesis by auto
  qed
qed

lemma exactly_one_record:
  assumes "one_record_per_badge ledger" and "granted ledger uid b"
  shows "length [r \<leftarrow> ledger. UserBadge.user_id r = uid \<and> badge_name r = b] = 1"
proof -
  from assms(2) have "[r \<leftarrow> ledger. UserBadge.user_id r = uid \<and> badge_name r = b] \<noteq> []"
    by (simp add: granted_def)
  then have "length [r \<leftarrow> ledger. UserBadge.user_id r = uid \<and> badge_name r = b] \<noteq> 0"
    by (simp only: length_0_conv not_False_eq_True)
  with at_most_one_record[OF assms(1), of uid b] show ?thesis by linarith
qed

lemma granted_after_insert: "granted (user_badges (insert_grant uid b w)) uid b"
  by (cases "granted (user_badges w) uid b") (simp_all add: insert_grant_def granted_append)

lemma grant_result:
  "fst (BadgesRepository_grantBadgeByName uid b w)
     = (case next_outage w of Some e \<Rightarrow> Inl e | None \<Rightarrow> Inr ())"
  by (simp add: grant_eq split: option.splits)

section \<open>When a pass returns normally\<close>

lemma storage_answers_tl:
  assumes "set os \<subseteq> {None}"
  shows "call_answered os \<and> set (tl os) \<subseteq> {None}"
  using assms by (cases os) (simp_all add: call_answered_def)

lemma completed_all:
  assumes "set os \<subseteq> {None}"
    and "\<forall>(b, q)\<in>set cs. b \<notin> names \<longrightarrow> (\<exists>ok. q db = Inr ok)"
  shows "completed_checks names db os cs = cs"
  using assms
proof (induction cs arbitrary: os)
  case Nil
  then show ?case by simp
next
  case (Cons c cs)
  obtain b q where c: "c = (b, q)" by (cases c)
  from Cons.prems(2) have rest: "\<forall>(b, q)\<in>set cs. b \<notin> names \<longrightarrow> (\<exists>ok. q db = Inr ok)"
    by simp
  from Cons.prems(1) have os: "call_answered os" "set (tl os) \<subseteq> {None}"
    using storage_answers_tl by blast+
  from os(2) have os2: "call_answered (tl os)" "set (tl (tl os)) \<subseteq> {None}"
    using storage_answers_tl by blast+
  show ?case
  proof (cases "b \<in> names")
    case True
    with Cons.IH[OF Cons.prems(1) rest] show ?thesis by (simp add: c)
  next
    case False
    with Cons.prems(2) obtain ok where ok: "q db = Inr ok" by (auto simp: c)
    with False os os2 Cons.IH[OF os(2) rest] Cons.IH[OF os2(2) rest] show ?thesis
      by (simp add: c)
  qed
qed

lemma completed_all_answered:
  assumes "completed_checks names db os cs = cs" and "(b, q) \<in> set cs" and "b \<notin> names"
  shows "\<exists>ok. q db = Inr ok"
  using assms
proof (induction cs arbitrary: os)
  case Nil
  then show ?case by simp
next
  case (Cons c cs)
  obtain b' q' where c: "c = (b', q')" by (cases c)
  from Cons.prems(1) obtain os' where tail: "completed_checks names db os' cs = cs"
    by (auto simp: c split: if_splits sum.splits)
  show ?case
  proof (cases "(b, q) = c")
    case True
    with Cons.prems(1,3) show ?thesis
      by (auto simp: c split: if_splits sum.splits)
  next
    case False
    with Cons.prems(2) have "(b, q) \<in> set cs" by simp
    from Cons.IH[OF tail this Cons.prems(3)] show ?thesis .
  qed
qed

lemma checks_answer:
  assumes "(b, q) \<in> set (checks d uid)"
    and "d = FlipAndFeel \<longrightarrow> b \<noteq> badges FLIP_AND_FEEL_ALL_CATEGORIES"
  shows "\<exists>ok. q db = Inr ok"
proof (cases d)
  case Journal
  with assms(1) show ?thesis by (auto simp: checks_Journal)
next
  case Gratitude
  with assms(1) show ?thesis by (auto simp: checks_Gratitude)
next
  case MoodCheckIn
  with assms(1) show ?thesis by (auto simp: checks_MoodCheckIn)
next
  case FlipAndFeel
  with assms show ?thesis by (auto simp: checks_FlipAndFeel)
qed

lemma category_check:
  "(badges FLIP_AND_FEEL_ALL_CATEGORIES, \<lambda>db. Inl operator_does_not_exist) \<in> set (checks FlipAndFeel uid)"
  by (simp add: checks_FlipAndFeel)

text \<open>
  A pass returns normally when the data source answers every call, unless it is a
  reflection pass for a user who does not hold the badge of the category rule.
\<close>

lemma pass_returns_normally:
  assumes "storage_answers w"
    and "d = FlipAndFeel \<longrightarrow> badges FLIP_AND_FEEL_ALL_CATEGORIES \<in> grant_set w uid"
  shows "fst (badgeWorker d uid w) = Inr ()"
proof -
  from assms(1) have os: "call_answered (outages w)" "set (tl (outages w)) \<subseteq> {None}"
    unfolding storage_answers_def using storage_answers_tl by blast+
  have "\<forall>(b, q)\<in>set (checks d uid). b \<notin> grant_set w uid \<longrightarrow> (\<exists>ok. q (activity w) = Inr ok)"
  proof (clarify)
    fix b q assume "(b, q) \<in> set (checks d uid)" "b \<notin> grant_set w uid"
    with assms(2) show "\<exists>ok. q (activity w) = Inr ok"
      by (intro checks_answer[of b q d uid]) auto
  qed
  from completed_all[OF os(2) this] os(1)
  have "evaluated_before_failure d uid w = checks d uid"
    by (simp only: evaluated_before_failure_def if_True)
  then show ?thesis
    using pass_completed[of d uid w] by simp
qed

lemma pass_normal_category_held:
  assumes "fst (badgeWorker d uid w) = Inr ()"
  shows "d = FlipAndFeel \<longrightarrow> badges FLIP_AND_FEEL_ALL_CATEGORIES \<in> grant_set w uid"
proof (intro impI, rule ccontr)
  assume d: "d = FlipAndFeel" and nh: "badges FLIP_AND_FEEL_ALL_CATEGORIES \<notin> grant_set w uid"
  from assms pass_completed[of d uid w]
  have ev: "evaluated_before_failure d uid w = checks d uid" by simp
  have answered: "call_answered (outages w)"
  proof (rule ccontr)
    assume "\<not> call_answered (outages w)"
    then have "evaluated_before_failure d uid w = []"
      by (simp only: evaluated_before_failure_def if_False)
    with ev checks_nonempty[of d uid] show False by simp
  qed
  with ev have "completed_checks (grant_set w uid) (activity w) (tl (outages w)) (checks FlipAndFeel uid)
      = checks FlipAndFeel uid"
    by (simp only: evaluated_before_failure_def if_True d)
  from completed_all_answered[OF this category_check nh] show False by simp
qed

section \<open>The badges due and the newly qualifying badges\<close>

lemma due_checks:
  assumes "d = FlipAndFeel \<longrightarrow> badges FLIP_AND_FEEL_ALL_CATEGORIES \<in> grant_set w uid"
  shows "due (grant_set w uid) (checks d uid) (activity w) = newly_qualifying d uid w"
proof (cases d)
  case Journal
  then show ?thesis by (simp only: newly_qualifying_due checks_Journal)
next
  case Gratitude
  then show ?thesis by (simp only: newly_qualifying_due checks_Gratitude)
next
  case MoodCheckIn
  then show ?thesis by (simp only: newly_qualifying_due checks_MoodCheckIn)
next
  case FlipAndFeel
  with assms show ?thesis
    by (simp add: newly_qualifying_due checks_FlipAndFeel rules_def del: holds.simps)
qed

lemma due_checks_subset:
  "set (due (grant_set w uid) (checks d uid) (activity w)) \<subseteq> set (newly_qualifying d uid w)"
proof (cases d)
  case FlipAndFeel
  then show ?thesis
    by (auto simp: newly_qualifying_due checks_FlipAndFeel rules_def simp del: holds.simps split: if_splits)
qed (simp_all add: due_checks)

lemma due_subset: "set (due names rs db) \<subseteq> fst ` set rs"
  by (induction rs) (auto split: if_splits)

lemma distinct_due: "distinct (map fst rs) \<Longrightarrow> distinct (due names rs db)"
proof (induction rs)
  case Nil
  then show ?case by simp
next
  case (Cons r rs)
  obtain b p where r: "r = (b, p)" by (cases r)
  from Cons.prems have "b \<notin> fst ` set rs" by (simp add: r)
  with due_subset[of names rs db] have "b \<notin> set (due names rs db)" by blast
  with Cons show ?case by (simp add: r)
qed

lemma due_not_held: "b \<in> set (due names rs db) \<Longrightarrow> b \<notin> names"
  by (induction rs) (auto split: if_splits)

lemma due_empty:
  assumes "\<forall>(b, q)\<in>set rs. q db = Inr True \<longrightarrow> b \<in> names"
  shows "due names rs db = []"
  using assms by (induction rs) auto

lemma due_held_more:
  assumes "set (due names rs db) \<subseteq> names'" and "names \<subseteq> names'"
  shows "due names' rs db = []"
proof (rule due_empty, clarify)
  fix b q assume "(b, q) \<in> set rs" "q db = Inr True"
  then have "b \<in> names \<or> b \<in> set (due names rs db)"
    by (induction rs) (auto split: if_splits)
  with assms show "b \<in> names'" by blast
qed

lemma grant_set_extended:
  assumes "user_badges w' = user_badges w @ map (grant_record uid t) bs"
  shows "grant_set w' uid = grant_set w uid \<union> set bs"
  using assms by (auto simp: grant_set_def grant_record_def comprehension1)

lemma grant_set_outages [simp]: "grant_set (w\<lparr>outages := os\<rparr>) uid = grant_set w uid"
  by (simp add: grant_set_def)

text \<open>
  In every pass of every domain \<open>grantBadgeByName\<close> is invoked only for newly qualifying
  badges, in the order of the rules and at most once for each; none of them is in the grant
  set loaded at the start.
\<close>

lemma grant_only_for_newly_qualifying:
  "\<exists>gs. grant_log (snd (badgeWorker d uid w)) = grant_log w @ map (Pair uid) gs
     \<and> set gs \<subseteq> set (newly_qualifying d uid w) \<and> distinct gs
     \<and> set gs \<inter> grant_set w uid = {}"
proof -
  from evaluation_pass_log[of w uid "checks d uid"] obtain gs rest where
    *: "due (grant_set w uid) (checks d uid) (activity w) = gs @ rest"
      "grant_log (snd (evaluation_pass uid (checks d uid) w)) = grant_log w @ map (Pair uid) gs"
    by blast
  from *(1) have sub: "set gs \<subseteq> set (due (grant_set w uid) (checks d uid) (activity w))"
    by simp
  with due_checks_subset[of w uid d] have "set gs \<subseteq> set (newly_qualifying d uid w)"
    by blast
  moreover have "distinct (gs @ rest)"
    using distinct_due[OF distinct_check_names, of "grant_set w uid" d uid "activity w"]
    by (simp only: *(1))
  then have "distinct gs" by simp
  moreover from sub have "set gs \<inter> grant_set w uid = {}"
    using due_not_held by fastforce
  ultimately show ?thesis
    using *(2) unfolding badgeWorker_loop by blast
qed

text \<open>
  When the data source answers every call, a pass of the journal, mood or gratitude domain
  (and a reflection pass for a user who holds the badge of the category rule) returns
  normally and has invoked \<open>grantBadgeByName\<close> for exactly the newly qualifying badges,
  which the ledger then holds.
\<close>

lemma pass_grants_newly_qualifying:
  assumes "storage_answers w"
    and "d = FlipAndFeel \<longrightarrow> badges FLIP_AND_FEEL_ALL_CATEGORIES \<in> grant_set w uid"
  shows "fst (badgeWorker d uid w) = Inr ()
     \<and> grant_log (snd (badgeWorker d uid w)) = grant_log w @ map (Pair uid) (newly_qualifying d uid w)
     \<and> grant_set (snd (badgeWorker d uid w)) uid = grant_set w uid \<union> set (newly_qualifying d uid w)"
proof -
  have ok: "fst (badgeWorker d uid w) = Inr ()"
    using assms by (rule pass_returns_normally)
  from evaluation_pass_log[of w uid "checks d uid"] ok
  have log: "grant_log (snd (badgeWorker d uid w))
      = grant_log w @ map (Pair uid) (due (grant_set w uid) (checks d uid) (activity w))"
    unfolding badgeWorker_loop by auto
  from pass_completed[of d uid w] ok
  have "user_badges (snd (badgeWorker d uid w))
      = user_badges w @ map (grant_record uid (now w)) (due (grant_set w uid) (checks d uid) (activity w))"
    by simp
  then have "grant_set (snd (badgeWorker d uid w)) uid
      = grant_set w uid \<union> set (due (grant_set w uid) (checks d uid) (activity w))"
    by (rule grant_set_extended)
  with ok log show ?thesis
    by (simp only: due_checks[OF assms(2)] simp_thms)
qed

section \<open>Theorems about the Activity History Store\<close>

text \<open>
  Outside the range of a \<open>bigint\<close> the threshold of a count or streak query is rejected
  by PostgreSQL and the method throws, whatever the history is.
\<close>

lemma threshold_out_of_range:
  assumes "n < - (2 ^ 63) \<or> 2 ^ 63 \<le> n" and "next_outage w = None"
  shows "fst (JournalEntryRepository_hasReachedEntryCount uid n w) = Inl bigint_out_of_range"
    and "fst (GratitudeEntryRepository_hasReachedEntryCount uid n w) = Inl bigint_out_of_range"
    and "fst (JournalEntryRepository_hasConsecutiveDays uid n w) = Inl bigint_out_of_range"
    and "fst (GratitudeEntryRepository_hasConsecutiveDays uid n w) = Inl bigint_out_of_range"
    and "fst (MoodCheckInRepository_hasConsecutiveDays uid n w) = Inl bigint_out_of_range"
    and "fst (FlipFeelRepository_hasConsecutiveDays uid n w) = Inl bigint_out_of_range"
  using assms(2)
  by (simp_all add: repository_methods method_result flagged_def
      with_bigint_out_of_range[OF assms(1)]
      JournalEntryRepository_hasReachedEntryCount_sql_def
      GratitudeEntryRepository_hasReachedEntryCount_sql_def
      JournalEntryRepository_hasConsecutiveDays_sql_def
      GratitudeEntryRepository_hasConsecutiveDays_sql_def
      MoodCheckInRepository_hasConsecutiveDays_sql_def
      FlipFeelRepository_hasConsecutiveDays_sql_def)

text \<open>
  Claim C6. For every threshold \<open>n\<close> that PostgreSQL accepts as a \<open>bigint\<close>
  (\<open>-2^63 \<le> n < 2^63\<close>; the workers pass 10 to 100), whenever the data source answers,
  \<open>hasReachedEntryCount(user, n)\<close> of the journal and of the gratitude repository returns
  true if and only if the user has at least \<open>n\<close> qualifying (not soft-deleted) records. In
  particular exactly \<open>n\<close> such records give true for the threshold \<open>n\<close> and false for
  \<open>n + 1\<close>.
\<close>

theorem hasReachedEntryCount_threshold:
  assumes "- (2 ^ 63) \<le> n" and "n < 2 ^ 63" and "next_outage w = None"
  shows "fst (JournalEntryRepository_hasReachedEntryCount uid n w)
           = Inr (n \<le> int (length (qualifying_dates Journal (activity w) uid)))
       \<and> fst (GratitudeEntryRepository_hasReachedEntryCount uid n w)
           = Inr (n \<le> int (length (qualifying_dates Gratitude (activity w) uid)))"
  using assms(3) journal_count_sql[OF assms(1,2)] gratitude_count_sql[OF assms(1,2)]
  by (simp add: JournalEntryRepository_hasReachedEntryCount_def
      GratitudeEntryRepository_hasReachedEntryCount_def method_result
      del: qualifying_dates.simps)

theorem hasReachedEntryCount_threshold_witness:
  "next_outage example_world = None
   \<and> - (2 ^ 63) \<le> (3::int) \<and> (3 + 1 :: int) < 2 ^ 63
   \<and> int (length (qualifying_dates Journal (activity example_world) ''ana'')) = 3
   \<and> fst (JournalEntryRepository_hasReachedEntryCount ''ana'' 3 example_world) = Inr True
   \<and> fst (JournalEntryRepository_hasReachedEntryCount ''ana'' (3 + 1) example_world) = Inr False
   \<and> int (length (qualifying_dates Gratitude (activity example_world) ''ana'')) = 4
   \<and> fst (GratitudeEntryRepository_hasReachedEntryCount ''ana'' 4 example_world) = Inr True
   \<and> fst (GratitudeEntryRepository_hasReachedEntryCount ''ana'' (4 + 1) example_world) = Inr False"
proof -
  have up: "next_outage example_world = None"
    by code_simp
  have j: "length (qualifying_dates Journal (activity example_world) ''ana'') = 3"
    by code_simp
  have g: "length (qualifying_dates Gratitude (activity example_world) ''ana'') = 4"
    by code_simp
  have lo: "- (2 ^ 63) \<le> (3::int)" "- (2 ^ 63) \<le> (3 + 1 :: int)"
    "- (2 ^ 63) \<le> (4::int)" "- (2 ^ 63) \<le> (4 + 1 :: int)"
    by simp_all
  have hi: "(3::int) < 2 ^ 63" "(3 + 1 :: int) < 2 ^ 63" "(4::int) < 2 ^ 63" "(4 + 1 :: int) < 2 ^ 63"
    by simp_all
  from up lo(1) hi(2)
    hasReachedEntryCount_threshold[OF lo(1) hi(1) up, where uid = "''ana''"]
    hasReachedEntryCount_threshold[OF lo(2) hi(2) up, where uid = "''ana''"]
    hasReachedEntryCount_threshold[OF lo(3) hi(3) up, where uid = "''ana''"]
    hasReachedEntryCount_threshold[OF lo(4) hi(4) up, where uid = "''ana''"]
  show ?thesis
    by (simp add: j g del: qualifying_dates.simps)
qed

lemma gap_breaks_run:
  "has_run {D, D + 1, D + 3} 2 \<and> \<not> has_run {D, D + 1, D + 3} 3"
proof
  have "\<forall>t\<in>{0..<2::int}. D + t \<in> {D, D + 1, D + 3}"
  proof
    fix t :: int assume "t \<in> {0..<2}"
    then have "t = 0 \<or> t = 1" by auto
    then show "D + t \<in> {D, D + 1, D + 3}" by auto
  qed
  then show "has_run {D, D + 1, D + 3} 2"
    unfolding has_run_def by blast
next
  show "\<not> has_run {D, D + 1, D + 3} 3"
  proof
    assume "has_run {D, D + 1, D + 3} 3"
    then obtain d where d: "d \<in> {D, D + 1, D + 3}" and run: "\<forall>t\<in>{0..<3::int}. d + t \<in> {D, D + 1, D + 3}"
      unfolding has_run_def by blast
    from run have "d + 1 \<in> {D, D + 1, D + 3}" "d + 2 \<in> {D, D + 1, D + 3}" by auto
    with d show False by auto
  qed
qed

text \<open>
  Claim C2. For every user, every domain and every positive \<open>k\<close> that PostgreSQL accepts
  as a \<open>bigint\<close> (\<open>k < 2^63\<close>; the workers pass 3, 7 and 14), whenever the data source
  answers, \<open>hasConsecutiveDays(user, k)\<close> returns true if and only if the distinct UTC
  calendar dates of the qualifying records of the user (several records of one day give
  one date) contain a run of \<open>k\<close> day-adjacent dates with no gap. So the rank-based
  computation of the query (date minus ascending row number, grouped, largest group)
  agrees with the longest run; the dates \<open>D\<close>, \<open>D + 1\<close>, \<open>D + 3\<close> hold a run of 2 and
  none of 3 (lemma \<open>gap_breaks_run\<close>).
\<close>

theorem hasConsecutiveDays_longest_run:
  assumes "0 < k" and "k < 2 ^ 63" and "next_outage w = None"
  shows "fst (JournalEntryRepository_hasConsecutiveDays uid k w)
           = Inr (has_run (set (qualifying_dates Journal (activity w) uid)) k)
       \<and> fst (GratitudeEntryRepository_hasConsecutiveDays uid k w)
           = Inr (has_run (set (qualifying_dates Gratitude (activity w) uid)) k)
       \<and> fst (MoodCheckInRepository_hasConsecutiveDays uid k w)
           = Inr (has_run (set (qualifying_dates MoodCheckIn (activity w) uid)) k)
       \<and> fst (FlipFeelRepository_hasConsecutiveDays uid k w)
           = Inr (has_run (set (qualifying_dates FlipAndFeel (activity w) uid)) k)"
  using assms(3) journal_streak_sql[OF assms(1,2)] gratitude_streak_sql[OF assms(1,2)]
    mood_streak_sql[OF assms(1,2)] flip_feel_streak_sql[OF assms(1,2)]
  by (simp add: JournalEntryRepository_hasConsecutiveDays_def
      GratitudeEntryRepository_hasConsecutiveDays_def
      MoodCheckInRepository_hasConsecutiveDays_def
      FlipFeelRepository_hasConsecutiveDays_def method_result
      del: qualifying_dates.simps)

theorem hasConsecutiveDays_longest_run_witness:
  "next_outage example_world = None
   \<and> set (qualifying_dates Journal (activity example_world) ''ana'') = {100, 100 + 1, 100 + 3}
   \<and> (0::int) < 2 \<and> (2::int) < 2 ^ 63
   \<and> fst (JournalEntryRepository_hasConsecutiveDays ''ana'' 2 example_world) = Inr True
   \<and> (0::int) < 3 \<and> (3::int) < 2 ^ 63
   \<and> fst (JournalEntryRepository_hasConsecutiveDays ''ana'' 3 example_world) = Inr False
   \<and> fst (GratitudeEntryRepository_hasConsecutiveDays ''ana'' 3 example_world) = Inr True
   \<and> fst (MoodCheckInRepository_hasConsecutiveDays ''ana'' 3 example_world) = Inr True
   \<and> fst (FlipFeelRepository_hasConsecutiveDays ''ana'' 3 example_world) = Inr False"
proof -
  have up: "next_outage example_world = None"
    by code_simp
  have two: "(0::int) < 2" and three: "(0::int) < 3"
    by simp_all
  have two': "(2::int) < 2 ^ 63" and three': "(3::int) < 2 ^ 63"
    by simp_all
  have dates: "set (qualifying_dates Journal (activity example_world) ''ana'') = {100, 100 + 1, 100 + 3}"
    by code_simp
  have j2: "has_run (set (qualifying_dates Journal (activity example_world) ''ana'')) 2 = True"
    by code_simp
  have j3: "has_run (set (qualifying_dates Journal (activity example_world) ''ana'')) 3 = False"
    by code_simp
  have g3: "has_run (set (qualifying_dates Gratitude (activity example_world) ''ana'')) 3 = True"
    by code_simp
  have m3: "has_run (set (qualifying_dates MoodCheckIn (activity example_world) ''ana'')) 3 = True"
    by code_simp
  have f3: "has_run (set (qualifying_dates FlipAndFeel (activity example_world) ''ana'')) 3 = False"
    by code_simp
  note at2 = hasConsecutiveDays_longest_run[OF two two' up, where uid = "''ana''"]
  note at3 = hasConsecutiveDays_longest_run[OF three three' up, where uid = "''ana''"]
  have r2: "fst (JournalEntryRepository_hasConsecutiveDays ''ana'' 2 example_world) = Inr True"
    using at2 by (simp only: j2)
  have r3: "fst (JournalEntryRepository_hasConsecutiveDays ''ana'' 3 example_world) = Inr False"
    using at3 by (simp only: j3)
  have r4: "fst (GratitudeEntryRepository_hasConsecutiveDays ''ana'' 3 example_world) = Inr True"
    using at3 by (simp only: g3)
  have r5: "fst (MoodCheckInRepository_hasConsecutiveDays ''ana'' 3 example_world) = Inr True"
    using at3 by (simp only: m3)
  have r6: "fst (FlipFeelRepository_hasConsecutiveDays ''ana'' 3 example_world) = Inr False"
    using at3 by (simp only: f3)
  from up dates two two' r2 three three' r3 r4 r5 r6 show ?thesis
    by blast
qed

text \<open>
  The category query is rejected on every call: the method never returns a boolean.
\<close>

lemma hasCompletedAllCategories_throws:
  "fst (FlipFeelRepository_hasCompletedAllCategories uid cs w)
     = Inl (case next_outage w of Some e \<Rightarrow> e | None \<Rightarrow> operator_does_not_exist)"
  by (simp add: FlipFeelRepository_hasCompletedAllCategories_def method_result
      flip_feel_categories_sql split: option.splits)

text \<open>
  Claim C8. \<open>hasCompletedAllCategories(user, categorySet)\<close> is to return true exactly when
  the categories answered in the completed sessions of the user cover \<open>categorySet\<close>. It
  does not: Ana has answered a question of each of the seven categories in a completed
  session, Ben of six of them (the seventh in a session that has no completion timestamp),
  the data source answers, and for both the method throws the rejection of its query
  where it is to return true for Ana and false for Ben.
\<close>

theorem hasCompletedAllCategories_rejected:
  "next_outage example_world = None
   \<and> set validCategories \<subseteq> completed_categories (activity example_world) ''ana''
   \<and> fst (FlipFeelRepository_hasCompletedAllCategories ''ana'' validCategories example_world)
       = Inl operator_does_not_exist
   \<and> card (completed_categories (activity example_world) ''ben'' \<inter> set validCategories) = 6
   \<and> fst (FlipFeelRepository_hasCompletedAllCategories ''ben'' validCategories example_world)
       = Inl operator_does_not_exist"
proof -
  have up: "next_outage example_world = None"
    by code_simp
  have a: "set validCategories \<subseteq> completed_categories (activity example_world) ''ana''"
    by code_simp
  have b: "card (completed_categories (activity example_world) ''ben'' \<inter> set validCategories) = 6"
    by code_simp
  have "fst (FlipFeelRepository_hasCompletedAllCategories uid validCategories example_world)
      = Inl operator_does_not_exist" for uid
    by (simp add: hasCompletedAllCategories_throws up)
  with up a b show ?thesis by blast
qed

text \<open>
  Claim C7. In the journal and gratitude domains soft-deleted records never count: two
  histories whose records that are not soft-deleted are the same (as multisets), queried
  under the same availability of the data source, give identical results from
  \<open>hasFirstEntry\<close>, \<open>hasReachedEntryCount\<close> and \<open>hasConsecutiveDays\<close>.
\<close>

theorem soft_deleted_never_count:
  assumes j: "mset [e \<leftarrow> journal_entries (activity w1). \<not> JournalEntry.is_deleted e]
            = mset [e \<leftarrow> journal_entries (activity w2). \<not> JournalEntry.is_deleted e]"
    and g: "mset [e \<leftarrow> gratitude_entries (activity w1). \<not> GratitudeEntry.is_deleted e]
          = mset [e \<leftarrow> gratitude_entries (activity w2). \<not> GratitudeEntry.is_deleted e]"
    and o: "outages w1 = outages w2"
  shows "fst (JournalEntryRepository_hasFirstEntry uid w1)
           = fst (JournalEntryRepository_hasFirstEntry uid w2)
       \<and> fst (JournalEntryRepository_hasReachedEntryCount uid n w1)
           = fst (JournalEntryRepository_hasReachedEntryCount uid n w2)
       \<and> fst (JournalEntryRepository_hasConsecutiveDays uid k w1)
           = fst (JournalEntryRepository_hasConsecutiveDays uid k w2)
       \<and> fst (GratitudeEntryRepository_hasFirstEntry uid w1)
           = fst (GratitudeEntryRepository_hasFirstEntry uid w2)
       \<and> fst (GratitudeEntryRepository_hasReachedEntryCount uid n w1)
           = fst (GratitudeEntryRepository_hasReachedEntryCount uid n w2)
       \<and> fst (GratitudeEntryRepository_hasConsecutiveDays uid k w1)
           = fst (GratitudeEntryRepository_hasConsecutiveDays uid k w2)"
proof -
  note jr = journal_rows_mset[OF j, of uid]
  note gr = gratitude_rows_mset[OF g, of uid]
  have "fst (JournalEntryRepository_hasFirstEntry uid w1)
      = fst (JournalEntryRepository_hasFirstEntry uid w2)"
    unfolding JournalEntryRepository_hasFirstEntry_def
    by (rule method_result_cong[OF o])
      (simp add: JournalEntryRepository_hasFirstEntry_sql_def take1_nonempty same_rows_same_emptiness[OF jr])
  moreover have "fst (JournalEntryRepository_hasReachedEntryCount uid n w1)
      = fst (JournalEntryRepository_hasReachedEntryCount uid n w2)"
    unfolding JournalEntryRepository_hasReachedEntryCount_def
    by (rule method_result_cong[OF o])
      (simp add: JournalEntryRepository_hasReachedEntryCount_sql_def same_rows_same_length[OF jr])
  moreover have "fst (JournalEntryRepository_hasConsecutiveDays uid k w1)
      = fst (JournalEntryRepository_hasConsecutiveDays uid k w2)"
    unfolding JournalEntryRepository_hasConsecutiveDays_def
    by (rule method_result_cong[OF o])
      (simp add: JournalEntryRepository_hasConsecutiveDays_sql_def journal_daily_entries_def
        same_rows_same_days[OF jr])
  moreover have "fst (GratitudeEntryRepository_hasFirstEntry uid w1)
      = fst (GratitudeEntryRepository_hasFirstEntry uid w2)"
    unfolding GratitudeEntryRepository_hasFirstEntry_def
    by (rule method_result_cong[OF o])
      (simp add: GratitudeEntryRepository_hasFirstEntry_sql_def take1_nonempty same_rows_same_emptiness[OF gr])
  moreover have "fst (GratitudeEntryRepository_hasReachedEntryCount uid n w1)
      = fst (GratitudeEntryRepository_hasReachedEntryCount uid n w2)"
    unfolding GratitudeEntryRepository_hasReachedEntryCount_def
    by (rule method_result_cong[OF o])
      (simp add: GratitudeEntryRepository_hasReachedEntryCount_sql_def same_rows_same_length[OF gr])
  moreover have "fst (GratitudeEntryRepository_hasConsecutiveDays uid k w1)
      = fst (GratitudeEntryRepository_hasConsecutiveDays uid k w2)"
    unfolding GratitudeEntryRepository_hasConsecutiveDays_def
    by (rule method_result_cong[OF o])
      (simp add: GratitudeEntryRepository_hasConsecutiveDays_sql_def gratitude_daily_entries_def
        same_rows_same_days[OF gr])
  ultimately show ?thesis by blast
qed

theorem soft_deleted_never_count_witness:
  "journal_entries (activity example_world) \<noteq> journal_entries (activity purged_world)
   \<and> gratitude_entries (activity example_world) \<noteq> gratitude_entries (activity purged_world)
   \<and> mset [e \<leftarrow> journal_entries (activity example_world). \<not> JournalEntry.is_deleted e]
       = mset [e \<leftarrow> journal_entries (activity purged_world). \<not> JournalEntry.is_deleted e]
   \<and> mset [e \<leftarrow> gratitude_entries (activity example_world). \<not> GratitudeEntry.is_deleted e]
       = mset [e \<leftarrow> gratitude_entries (activity purged_world). \<not> GratitudeEntry.is_deleted e]
   \<and> outages example_world = outages purged_world
   \<and> fst (JournalEntryRepository_hasFirstEntry ''ana'' example_world)
       = fst (JournalEntryRepository_hasFirstEntry ''ana'' purged_world)
   \<and> fst (JournalEntryRepository_hasReachedEntryCount ''ana'' 4 example_world)
       = fst (JournalEntryRepository_hasReachedEntryCount ''ana'' 4 purged_world)
   \<and> fst (JournalEntryRepository_hasConsecutiveDays ''ana'' 4 example_world)
       = fst (JournalEntryRepository_hasConsecutiveDays ''ana'' 4 purged_world)
   \<and> fst (GratitudeEntryRepository_hasFirstEntry ''ana'' example_world)
       = fst (GratitudeEntryRepository_hasFirstEntry ''ana'' purged_world)
   \<and> fst (GratitudeEntryRepository_hasReachedEntryCount ''ana'' 4 example_world)
       = fst (GratitudeEntryRepository_hasReachedEntryCount ''ana'' 4 purged_world)
   \<and> fst (GratitudeEntryRepository_hasConsecutiveDays ''ana'' 4 example_world)
       = fst (GratitudeEntryRepository_hasConsecutiveDays ''ana'' 4 purged_world)"
proof -
  have dj: "journal_entries (activity example_world) \<noteq> journal_entries (activity purged_world)"
    by code_simp
  have dg: "gratitude_entries (activity example_world) \<noteq> gratitude_entries (activity purged_world)"
    by code_simp
  have j: "mset [e \<leftarrow> journal_entries (activity example_world). \<not> JournalEntry.is_deleted e]
       = mset [e \<leftarrow> journal_entries (activity purged_world). \<not> JournalEntry.is_deleted e]"
    by (simp add: example_world_def purged_world_def example_activity_def example_journal_def)
  have g: "mset [e \<leftarrow> gratitude_entries (activity example_world). \<not> GratitudeEntry.is_deleted e]
       = mset [e \<leftarrow> gratitude_entries (activity purged_world). \<not> GratitudeEntry.is_deleted e]"
    by (simp add: example_world_def purged_world_def example_activity_def example_gratitude_def)
  have o: "outages example_world = outages purged_world"
    by (simp add: example_world_def purged_world_def)
  from dj dg j g o soft_deleted_never_count[OF j g o, where uid = "''ana''" and n = 4 and k = 4]
  show ?thesis
    by blast
qed

section \<open>Theorems about the Badge Evaluation Engine\<close>

text \<open>
  Claim C1. A pass is to invoke \<open>grantBadgeByName\<close> for exactly the rules of its domain
  whose badge is not in the grant set loaded at the start and whose predicate holds. The
  reflection pass does not: Dee has completed a session on each of seven consecutive days
  and holds no badge, so the badges to grant are "First Step Inward" and "Steady
  Self-Reflector"; the data source answers every call; the pass invokes
  \<open>grantBadgeByName\<close> for "First Step Inward" only and throws the rejection of the
  category query, which it runs before it comes to the seven-day rule. A second pass throws
  in the same way and invokes \<open>grantBadgeByName\<close> for nothing. (For the other passes see
  \<open>grant_only_for_newly_qualifying\<close> and \<open>pass_grants_newly_qualifying\<close>.)
\<close>

theorem flipAndFeelBadgeWorker_skips_streak_rule:
  "storage_answers example_world
   \<and> grant_set example_world ''dee'' = {}
   \<and> newly_qualifying FlipAndFeel ''dee'' example_world
       = [''First Step Inward'', ''Steady Self-Reflector'']
   \<and> fst (flipAndFeelBadgeWorker ''dee'' example_world) = Inl operator_does_not_exist
   \<and> grant_log (snd (flipAndFeelBadgeWorker ''dee'' example_world)) = [(''dee'', ''First Step Inward'')]
   \<and> grant_set (snd (flipAndFeelBadgeWorker ''dee'' example_world)) ''dee'' = {''First Step Inward''}
   \<and> fst (flipAndFeelBadgeWorker ''dee'' (snd (flipAndFeelBadgeWorker ''dee'' example_world)))
       = Inl operator_does_not_exist
   \<and> grant_log (snd (flipAndFeelBadgeWorker ''dee'' (snd (flipAndFeelBadgeWorker ''dee'' example_world))))
       = [(''dee'', ''First Step Inward'')]"
proof -
  have up: "storage_answers example_world"
    by code_simp
  have none: "grant_set example_world ''dee'' = {}"
    by code_simp
  have new: "newly_qualifying FlipAndFeel ''dee'' example_world
       = [''First Step Inward'', ''Steady Self-Reflector'']"
    by code_simp
  have first: "fst (flipAndFeelBadgeWorker ''dee'' example_world) = Inl operator_does_not_exist"
    by code_simp
  have log1: "grant_log (snd (flipAndFeelBadgeWorker ''dee'' example_world)) = [(''dee'', ''First Step Inward'')]"
    by code_simp
  have gs1: "grant_set (snd (flipAndFeelBadgeWorker ''dee'' example_world)) ''dee'' = {''First Step Inward''}"
    by code_simp
  have second: "fst (flipAndFeelBadgeWorker ''dee'' (snd (flipAndFeelBadgeWorker ''dee'' example_world)))
       = Inl operator_does_not_exist"
    by code_simp
  have log2: "grant_log (snd (flipAndFeelBadgeWorker ''dee'' (snd (flipAndFeelBadgeWorker ''dee'' example_world))))
       = [(''dee'', ''First Step Inward'')]"
    by code_simp
  from up none new first log1 gs1 second log2 show ?thesis by blast
qed

lemma newly_qualifying_antimono:
  assumes "grant_set w uid \<subseteq> grant_set w' uid" and "activity w' = activity w"
  shows "set (newly_qualifying d uid w') \<subseteq> set (newly_qualifying d uid w)"
  using assms by (auto simp: newly_qualifying_def)

lemma pass_grant_set:
  "grant_set (snd (badgeWorker d uid w)) uid
     = grant_set w uid \<union> set (due (grant_set w uid) (evaluated_before_failure d uid w) (activity w))"
  using pass_completed[of d uid w] grant_set_extended by blast

lemma pass_activity: "activity (snd (badgeWorker d uid w)) = activity w"
  unfolding badgeWorker_loop using evaluation_pass_activity[of uid "checks d uid" w] by simp

text \<open>
  Claim C4, as stated, fails: the sixth call of a gratitude pass for Ana is thrown by the
  data source, after "Grateful Heart" has been granted and before the three-day rule is
  evaluated; the pass fails, and the same pass run again on the state it left, with an
  unchanged history, invokes \<open>grantBadgeByName\<close> for "Thankful Thinker".
\<close>

theorem second_pass_after_failure_grants:
  "fst (badgeWorker Gratitude ''ana'' outage_world) = Inl connection_lost
   \<and> activity (snd (badgeWorker Gratitude ''ana'' outage_world)) = activity outage_world
   \<and> grant_log (snd (badgeWorker Gratitude ''ana'' outage_world)) = [(''ana'', ''Grateful Heart'')]
   \<and> grant_log (snd (badgeWorker Gratitude ''ana'' (snd (badgeWorker Gratitude ''ana'' outage_world))))
       = [(''ana'', ''Grateful Heart''), (''ana'', ''Thankful Thinker'')]"
proof -
  have failed: "fst (badgeWorker Gratitude ''ana'' outage_world) = Inl connection_lost"
    by code_simp
  have same: "activity (snd (badgeWorker Gratitude ''ana'' outage_world)) = activity outage_world"
    by (rule pass_activity)
  have log1: "grant_log (snd (badgeWorker Gratitude ''ana'' outage_world)) = [(''ana'', ''Grateful Heart'')]"
    by code_simp
  have log2: "grant_log (snd (badgeWorker Gratitude ''ana'' (snd (badgeWorker Gratitude ''ana'' outage_world))))
       = [(''ana'', ''Grateful Heart''), (''ana'', ''Thankful Thinker'')]"
    by code_simp
  from failed same log1 log2 show ?thesis by blast
qed

text \<open>
  Claim C4, amended. When the same pass runs a second time on the state the first left
  (whatever the availability of the data source then, the history unchanged), the second
  pass invokes \<open>grantBadgeByName\<close> only for newly qualifying badges that are not in the
  grant set it loads, which holds every badge the first pass recorded, and at most once
  for each; no pair of a user and a badge gets a second record. When the first pass
  returned normally, it has invoked \<open>grantBadgeByName\<close> exactly once for each newly
  qualifying badge, the ledger holds them all, and the second pass invokes it for no badge
  and leaves the ledger as it is. A first pass returns normally whenever the data source
  answers every call (for the reflection pass: when the user holds the badge of the
  category rule).
\<close>

theorem redelivery_grants_only_missing:
  "(\<exists>gs. grant_log (snd (badgeWorker d uid (snd (badgeWorker d uid w)\<lparr>outages := os\<rparr>)))
            = grant_log (snd (badgeWorker d uid w)) @ map (Pair uid) gs
        \<and> distinct gs
        \<and> set gs \<subseteq> set (newly_qualifying d uid w)
        \<and> set gs \<inter> grant_set (snd (badgeWorker d uid w)) uid = {})
   \<and> grant_set w uid \<subseteq> grant_set (snd (badgeWorker d uid w)) uid
   \<and> (one_record_per_badge (user_badges w) \<longrightarrow>
        one_record_per_badge
          (user_badges (snd (badgeWorker d uid (snd (badgeWorker d uid w)\<lparr>outages := os\<rparr>)))))
   \<and> (fst (badgeWorker d uid w) = Inr () \<longrightarrow>
        grant_log (snd (badgeWorker d uid w)) = grant_log w @ map (Pair uid) (newly_qualifying d uid w)
        \<and> distinct (newly_qualifying d uid w)
        \<and> set (newly_qualifying d uid w) \<subseteq> grant_set (snd (badgeWorker d uid w)) uid
        \<and> grant_log (snd (badgeWorker d uid (snd (badgeWorker d uid w)\<lparr>outages := os\<rparr>)))
            = grant_log (snd (badgeWorker d uid w))
        \<and> user_badges (snd (badgeWorker d uid (snd (badgeWorker d uid w)\<lparr>outages := os\<rparr>)))
            = user_badges (snd (badgeWorker d uid w)))
   \<and> (storage_answers w
        \<and> (d = FlipAndFeel \<longrightarrow> badges FLIP_AND_FEEL_ALL_CATEGORIES \<in> grant_set w uid) \<longrightarrow>
        fst (badgeWorker d uid w) = Inr ())"
proof -
  let ?w1 = "snd (badgeWorker d uid w)"
  let ?w1' = "?w1\<lparr>outages := os\<rparr>"
  let ?w2 = "snd (badgeWorker d uid ?w1')"
  let ?cs = "checks d uid"
  have act: "activity ?w1' = activity w"
    by (simp add: pass_activity)
  have more: "grant_set w uid \<subseteq> grant_set ?w1' uid"
    by (simp add: pass_grant_set)
  have second: "\<exists>gs. grant_log ?w2 = grant_log ?w1 @ map (Pair uid) gs \<and> distinct gs
      \<and> set gs \<subseteq> set (newly_qualifying d uid w) \<and> set gs \<inter> grant_set ?w1 uid = {}"
  proof -
    from grant_only_for_newly_qualifying[of d uid ?w1'] obtain gs where
      gs: "grant_log ?w2 = grant_log ?w1' @ map (Pair uid) gs"
        "set gs \<subseteq> set (newly_qualifying d uid ?w1')" "distinct gs"
        "set gs \<inter> grant_set ?w1' uid = {}"
      by blast
    from gs(2) newly_qualifying_antimono[OF more act, of d]
    have "set gs \<subseteq> set (newly_qualifying d uid w)" by blast
    with gs show ?thesis by auto
  qed
  have inv: "one_record_per_badge (user_badges ?w2)" if "one_record_per_badge (user_badges w)"
  proof -
    from that have "one_record_per_badge (user_badges ?w1)"
      unfolding badgeWorker_loop by (rule evaluation_pass_inv)
    then have "one_record_per_badge (user_badges ?w1')" by simp
    then show ?thesis
      unfolding badgeWorker_loop by (rule evaluation_pass_inv)
  qed
  have normal: "grant_log ?w1 = grant_log w @ map (Pair uid) (newly_qualifying d uid w)
      \<and> distinct (newly_qualifying d uid w)
      \<and> set (newly_qualifying d uid w) \<subseteq> grant_set ?w1 uid
      \<and> grant_log ?w2 = grant_log ?w1 \<and> user_badges ?w2 = user_badges ?w1"
    if ok: "fst (badgeWorker d uid w) = Inr ()"
  proof -
    let ?names = "grant_set w uid"
    from ok have held: "d = FlipAndFeel \<longrightarrow> badges FLIP_AND_FEEL_ALL_CATEGORIES \<in> ?names"
      by (rule pass_normal_category_held)
    have new: "due ?names ?cs (activity w) = newly_qualifying d uid w"
      using held by (rule due_checks)
    from ok pass_completed[of d uid w] have all: "evaluated_before_failure d uid w = ?cs"
      by simp
    from evaluation_pass_log[of w uid ?cs] ok
    have log1: "grant_log ?w1 = grant_log w @ map (Pair uid) (newly_qualifying d uid w)"
      unfolding badgeWorker_loop new by auto
    have gs1: "grant_set ?w1 uid = ?names \<union> set (newly_qualifying d uid w)"
      by (simp only: pass_grant_set all new)
    have dist: "distinct (newly_qualifying d uid w)"
      using distinct_due[OF distinct_check_names, of ?names d uid "activity w"] by (simp only: new)
    have none: "due (grant_set ?w1' uid) ?cs (activity ?w1') = []"
      unfolding act by (rule due_held_more[of ?names]) (simp_all add: new gs1)
    from evaluation_pass_log[of ?w1' uid ?cs] none
    have log2: "grant_log ?w2 = grant_log ?w1"
      unfolding badgeWorker_loop by auto
    have "due (grant_set ?w1' uid) (evaluated_before_failure d uid ?w1' @ remaining_rules d uid ?w1') (activity ?w1') = []"
      using none by (simp only: remaining_rules_split[symmetric])
    then have "due (grant_set ?w1' uid) (evaluated_before_failure d uid ?w1') (activity ?w1') = []"
      by simp
    with pass_completed[of d uid ?w1'] have led2: "user_badges ?w2 = user_badges ?w1"
      by simp
    from log1 dist gs1 log2 led2 show ?thesis by simp
  qed
  have returns: "fst (badgeWorker d uid w) = Inr ()"
    if "storage_answers w \<and> (d = FlipAndFeel \<longrightarrow> badges FLIP_AND_FEEL_ALL_CATEGORIES \<in> grant_set w uid)"
    using that pass_returns_normally by blast
  from more have more1: "grant_set w uid \<subseteq> grant_set ?w1 uid" by simp
  from second more1 inv normal returns show ?thesis by blast
qed

theorem redelivery_grants_only_missing_witness:
  "storage_answers example_world
   \<and> one_record_per_badge (user_badges example_world)
   \<and> fst (badgeWorker Gratitude ''ana'' example_world) = Inr ()
   \<and> newly_qualifying Gratitude ''ana'' example_world = [''Grateful Heart'', ''Thankful Thinker'']
   \<and> grant_log (snd (badgeWorker Gratitude ''ana'' example_world))
       = [(''ana'', ''Grateful Heart''), (''ana'', ''Thankful Thinker'')]
   \<and> grant_log (snd (badgeWorker Gratitude ''ana'' (snd (badgeWorker Gratitude ''ana'' example_world)\<lparr>outages := []\<rparr>)))
       = [(''ana'', ''Grateful Heart''), (''ana'', ''Thankful Thinker'')]
   \<and> one_record_per_badge (user_badges
        (snd (badgeWorker Gratitude ''ana'' (snd (badgeWorker Gratitude ''ana'' example_world)\<lparr>outages := []\<rparr>))))
   \<and> one_record_per_badge (user_badges outage_world)
   \<and> fst (badgeWorker Gratitude ''ana'' outage_world) = Inl connection_lost
   \<and> one_record_per_badge (user_badges
        (snd (badgeWorker Gratitude ''ana'' (snd (badgeWorker Gratitude ''ana'' outage_world)\<lparr>outages := []\<rparr>))))"
proof -
  have up: "storage_answers example_world"
    by code_simp
  have inv: "one_record_per_badge (user_badges example_world)"
    by code_simp
  have inv': "one_record_per_badge (user_badges outage_world)"
    by code_simp
  have failed: "fst (badgeWorker Gratitude ''ana'' outage_world) = Inl connection_lost"
    by code_simp
  have new: "newly_qualifying Gratitude ''ana'' example_world = [''Grateful Heart'', ''Thankful Thinker'']"
    by code_simp
  have log0: "grant_log example_world = []"
    by code_simp
  note inst = redelivery_grants_only_missing[where d = Gratitude and uid = "''ana''"
      and w = example_world and os = "[]"]
  note inst' = redelivery_grants_only_missing[where d = Gratitude and uid = "''ana''"
      and w = outage_world and os = "[]"]
  from inst up have ok: "fst (badgeWorker Gratitude ''ana'' example_world) = Inr ()"
    by simp
  from inst ok have log1: "grant_log (snd (badgeWorker Gratitude ''ana'' example_world))
      = grant_log example_world @ map (Pair ''ana'') (newly_qualifying Gratitude ''ana'' example_world)"
    and log2: "grant_log (snd (badgeWorker Gratitude ''ana'' (snd (badgeWorker Gratitude ''ana'' example_world)\<lparr>outages := []\<rparr>)))
      = grant_log (snd (badgeWorker Gratitude ''ana'' example_world))"
    by blast+
  from log1 have log1': "grant_log (snd (badgeWorker Gratitude ''ana'' example_world))
      = [(''ana'', ''Grateful Heart''), (''ana'', ''Thankful Thinker'')]"
    by (simp only: new log0 list.map append_Nil)
  from log2 log1' have log2': "grant_log (snd (badgeWorker Gratitude ''ana'' (snd (badgeWorker Gratitude ''ana'' example_world)\<lparr>outages := []\<rparr>)))
      = [(''ana'', ''Grateful Heart''), (''ana'', ''Thankful Thinker'')]"
    by simp
  from inst inv have inv2: "one_record_per_badge (user_badges
      (snd (badgeWorker Gratitude ''ana'' (snd (badgeWorker Gratitude ''ana'' example_world)\<lparr>outages := []\<rparr>))))"
    by blast
  from inst' inv' have inv2': "one_record_per_badge (user_badges
      (snd (badgeWorker Gratitude ''ana'' (snd (badgeWorker Gratitude ''ana'' outage_world)\<lparr>outages := []\<rparr>))))"
    by blast
  from up inv ok new log1' log2' inv2 inv' failed inv2' show ?thesis by blast
qed

text \<open>
  Claim C5. The rules of a pass split into those evaluated before the failure (as the
  schedule of the data source, the grant set loaded and the history determine them) and
  the remaining ones; the pass returns normally exactly when none remains. Whatever the
  pass returns, its ledger is the ledger it started from followed by the grants of the
  rules evaluated before the failure (nothing is rolled back), and no remaining rule is
  granted by the pass. If a call to the data source made by the pass is thrown (a query of
  the Activity History Store, the load of the grant set or a grant write), the pass returns
  that very error to its caller, the failing call is the last one it makes and rules
  remain. If no call is thrown and the query of the first remaining rule is rejected, the
  pass returns that rejection.
\<close>

theorem storage_failure_aborts_pass:
  "checks d uid = evaluated_before_failure d uid w @ remaining_rules d uid w
   \<and> user_badges (snd (badgeWorker d uid w))
       = user_badges w @ map (grant_record uid (now w))
           (due (grant_set w uid) (evaluated_before_failure d uid w) (activity w))
   \<and> (\<forall>b\<in>fst ` set (remaining_rules d uid w).
         b \<in> grant_set (snd (badgeWorker d uid w)) uid \<longrightarrow> b \<in> grant_set w uid)
   \<and> (fst (badgeWorker d uid w) = Inr ()) = (remaining_rules d uid w = [])
   \<and> (Some e \<in> set (consumed w (snd (badgeWorker d uid w))) \<longrightarrow>
        fst (badgeWorker d uid w) = Inl e
        \<and> consumed w (snd (badgeWorker d uid w)) = takeWhile (\<lambda>x. x = None) (outages w) @ [Some e]
        \<and> remaining_rules d uid w \<noteq> [])
   \<and> (set (consumed w (snd (badgeWorker d uid w))) \<subseteq> {None}
        \<and> remaining_rules d uid w = (b, q) # later \<and> q (activity w) = Inl e' \<longrightarrow>
        fst (badgeWorker d uid w) = Inl e')"
proof -
  let ?w' = "snd (badgeWorker d uid w)"
  let ?ev = "evaluated_before_failure d uid w"
  let ?rem = "remaining_rules d uid w"
  have split: "checks d uid = ?ev @ ?rem"
    by (rule remaining_rules_split)
  have led: "user_badges ?w' = user_badges w @ map (grant_record uid (now w))
      (due (grant_set w uid) ?ev (activity w))"
    using pass_completed[of d uid w] by simp
  have later: "\<forall>b\<in>fst ` set ?rem. b \<in> grant_set ?w' uid \<longrightarrow> b \<in> grant_set w uid"
  proof (intro ballI impI)
    fix b assume b: "b \<in> fst ` set ?rem" "b \<in> grant_set ?w' uid"
    have "distinct (map fst (?ev @ ?rem))"
      using distinct_check_names[of d uid] by (simp only: split[symmetric])
    with b(1) have "b \<notin> fst ` set ?ev" by auto
    with due_subset[of "grant_set w uid" ?ev "activity w"]
    have "b \<notin> set (due (grant_set w uid) ?ev (activity w))" by blast
    with b(2) show "b \<in> grant_set w uid" by (simp add: pass_grant_set)
  qed
  have "(?ev = checks d uid) = (?rem = [])"
    using split by (metis append_Nil2 self_append_conv)
  with pass_completed[of d uid w]
  have normal: "(fst (badgeWorker d uid w) = Inr ()) = (?rem = [])"
    by simp
  have thrown: "fst (badgeWorker d uid w) = Inl e
      \<and> consumed w ?w' = takeWhile (\<lambda>x. x = None) (outages w) @ [Some e] \<and> ?rem \<noteq> []"
    if failed: "Some e \<in> set (consumed w ?w')"
  proof (cases "fst (badgeWorker d uid w)")
    case (Inr u)
    with pass_calls[of d uid w] have "calls_answered w ?w'" by simp
    then have "set (consumed w ?w') \<subseteq> {None}" by (rule consumed_answered)
    with failed show ?thesis by auto
  next
    case (Inl e1)
    with pass_calls[of d uid w] have "call_failed e1 w ?w' \<or> calls_answered w ?w'" by simp
    with failed have same: "e1 = e" and call: "call_failed e w ?w'"
      using failure_consumed by blast+
    from Inl have "fst (badgeWorker d uid w) \<noteq> Inr ()" by simp
    with normal have "?rem \<noteq> []" by simp
    with Inl same consumed_failed[OF call] show ?thesis by simp
  qed
  have rejected: "fst (badgeWorker d uid w) = Inl e'"
    if quiet: "set (consumed w ?w') \<subseteq> {None}" and first: "?rem = (b, q) # later"
      and rej: "q (activity w) = Inl e'"
  proof (cases "fst (badgeWorker d uid w)")
    case (Inr u)
    with normal first show ?thesis by simp
  next
    case (Inl e1)
    from pass_error[OF Inl] show ?thesis
    proof
      assume "call_failed e1 w ?w'"
      then have "consumed w ?w' = takeWhile (\<lambda>x. x = None) (outages w) @ [Some e1]"
        by (rule consumed_failed)
      with quiet show ?thesis by simp
    next
      assume "\<exists>b q later. ?rem = (b, q) # later \<and> b \<notin> grant_set w uid \<and> q (activity w) = Inl e1"
      with first rej have "e1 = e'" by auto
      with Inl show ?thesis by simp
    qed
  qed
  from split led later normal thrown rejected show ?thesis by blast
qed

theorem storage_failure_aborts_pass_witness:
  "Some connection_lost \<in> set (consumed outage_world (snd (badgeWorker Gratitude ''ana'' outage_world)))
   \<and> fst (badgeWorker Gratitude ''ana'' outage_world) = Inl connection_lost
   \<and> consumed outage_world (snd (badgeWorker Gratitude ''ana'' outage_world))
       = [None, None, None, None, None, Some connection_lost]
   \<and> map fst (evaluated_before_failure Gratitude ''ana'' outage_world)
       = [''Grateful Heart'', ''Growing Gratitude'', ''Mindful Appreciator'']
   \<and> map fst (remaining_rules Gratitude ''ana'' outage_world)
       = [''Beacon of Gratitude'', ''Radiant Gratitude'', ''Thankful Thinker'', ''Appreciation Advocate'']
   \<and> newly_qualifying Gratitude ''ana'' outage_world = [''Grateful Heart'', ''Thankful Thinker'']
   \<and> user_badges (snd (badgeWorker Gratitude ''ana'' outage_world))
       = [grant_record ''ana'' (now outage_world) ''Grateful Heart'']
   \<and> set (consumed example_world (snd (badgeWorker FlipAndFeel ''dee'' example_world))) \<subseteq> {None}
   \<and> map fst (remaining_rules FlipAndFeel ''dee'' example_world)
       = [''Emotional Explorer'', ''Steady Self-Reflector'']
   \<and> snd (hd (remaining_rules FlipAndFeel ''dee'' example_world)) (activity example_world)
       = Inl operator_does_not_exist
   \<and> fst (badgeWorker FlipAndFeel ''dee'' example_world) = Inl operator_does_not_exist"
proof -
  have failed: "Some connection_lost
      \<in> set (consumed outage_world (snd (badgeWorker Gratitude ''ana'' outage_world)))"
    by code_simp
  have answered: "takeWhile (\<lambda>x. x = None) (outages outage_world) @ [Some connection_lost]
      = [None, None, None, None, None, Some connection_lost]"
    by code_simp
  have ev: "map fst (evaluated_before_failure Gratitude ''ana'' outage_world)
       = [''Grateful Heart'', ''Growing Gratitude'', ''Mindful Appreciator'']"
    by code_simp
  have rem: "map fst (remaining_rules Gratitude ''ana'' outage_world)
       = [''Beacon of Gratitude'', ''Radiant Gratitude'', ''Thankful Thinker'', ''Appreciation Advocate'']"
    by code_simp
  have new: "newly_qualifying Gratitude ''ana'' outage_world = [''Grateful Heart'', ''Thankful Thinker'']"
    by code_simp
  have grants: "user_badges outage_world @ map (grant_record ''ana'' (now outage_world))
      (due (grant_set outage_world ''ana'') (evaluated_before_failure Gratitude ''ana'' outage_world)
         (activity outage_world))
      = [grant_record ''ana'' (now outage_world) ''Grateful Heart'']"
    by code_simp
  have quiet: "set (consumed example_world (snd (badgeWorker FlipAndFeel ''dee'' example_world))) \<subseteq> {None}"
    by code_simp
  have names: "map fst (remaining_rules FlipAndFeel ''dee'' example_world)
       = [''Emotional Explorer'', ''Steady Self-Reflector'']"
    by code_simp
  have rej: "snd (hd (remaining_rules FlipAndFeel ''dee'' example_world)) (activity example_world)
       = Inl operator_does_not_exist"
    by code_simp
  from names have shape: "remaining_rules FlipAndFeel ''dee'' example_world
      = (fst (hd (remaining_rules FlipAndFeel ''dee'' example_world)),
         snd (hd (remaining_rules FlipAndFeel ''dee'' example_world)))
        # tl (remaining_rules FlipAndFeel ''dee'' example_world)"
    by (cases "remaining_rules FlipAndFeel ''dee'' example_world") (auto simp: prod_eq_iff)
  note at_outage = storage_failure_aborts_pass[where d = Gratitude and uid = "''ana''"
      and w = outage_world and e = connection_lost]
  note at_rejection = storage_failure_aborts_pass[where d = FlipAndFeel and uid = "''dee''"
      and w = example_world
      and b = "fst (hd (remaining_rules FlipAndFeel ''dee'' example_world))"
      and q = "snd (hd (remaining_rules FlipAndFeel ''dee'' example_world))"
      and later = "tl (remaining_rules FlipAndFeel ''dee'' example_world)"
      and e' = operator_does_not_exist]
  from at_outage failed have res: "fst (badgeWorker Gratitude ''ana'' outage_world) = Inl connection_lost"
    and calls: "consumed outage_world (snd (badgeWorker Gratitude ''ana'' outage_world))
      = takeWhile (\<lambda>x. x = None) (outages outage_world) @ [Some connection_lost]"
    by blast+
  from calls answered have calls': "consumed outage_world (snd (badgeWorker Gratitude ''ana'' outage_world))
      = [None, None, None, None, None, Some connection_lost]"
    by simp
  from at_outage have "user_badges (snd (badgeWorker Gratitude ''ana'' outage_world))
      = user_badges outage_world @ map (grant_record ''ana'' (now outage_world))
          (due (grant_set outage_world ''ana'') (evaluated_before_failure Gratitude ''ana'' outage_world)
             (activity outage_world))"
    by blast
  with grants have led: "user_badges (snd (badgeWorker Gratitude ''ana'' outage_world))
      = [grant_record ''ana'' (now outage_world) ''Grateful Heart'']"
    by simp
  from at_rejection quiet shape rej
  have res2: "fst (badgeWorker FlipAndFeel ''dee'' example_world) = Inl operator_does_not_exist"
    by blast
  from failed res calls' ev rem new led quiet names rej res2 show ?thesis by blast
qed

text \<open>
  Claim C3. Starting from a ledger with at most one grant record for every pair of a user
  and a badge, a grant, any sequence of grants (the writes of duplicate or concurrent
  passes in whatever order they reach the data source) and every pass leave at most one
  record for every pair. A grant throws only when the data source fails. Granting a badge
  that the user already holds changes nothing in the ledger, and after a grant that
  returned normally there is exactly one record for the pair and a second grant leaves the
  ledger as it is.
\<close>

theorem grant_is_idempotent:
  assumes "one_record_per_badge (user_badges w)"
  shows "one_record_per_badge (user_badges (snd (BadgesRepository_grantBadgeByName uid b w)))
     \<and> one_record_per_badge (user_badges (grant_sequence ops w))
     \<and> one_record_per_badge (user_badges (snd (badgeWorker d uid' w)))
     \<and> length [r \<leftarrow> user_badges (snd (BadgesRepository_grantBadgeByName uid b w)).
                 UserBadge.user_id r = uid \<and> badge_name r = b] \<le> 1
     \<and> (next_outage w = None \<longrightarrow> fst (BadgesRepository_grantBadgeByName uid b w) = Inr ())
     \<and> (granted (user_badges w) uid b \<longrightarrow>
           user_badges (snd (BadgesRepository_grantBadgeByName uid b w)) = user_badges w)
     \<and> (fst (BadgesRepository_grantBadgeByName uid b w) = Inr () \<longrightarrow>
           length [r \<leftarrow> user_badges (snd (BadgesRepository_grantBadgeByName uid b w)).
                     UserBadge.user_id r = uid \<and> badge_name r = b] = 1
         \<and> user_badges (snd (BadgesRepository_grantBadgeByName uid b
                               (snd (BadgesRepository_grantBadgeByName uid b w)\<lparr>outages := os\<rparr>)))
             = user_badges (snd (BadgesRepository_grantBadgeByName uid b w)))"
proof -
  let ?w1 = "snd (BadgesRepository_grantBadgeByName uid b w)"
  have inv1: "one_record_per_badge (user_badges ?w1)"
    using assms by (rule grant_inv)
  have seq: "one_record_per_badge (user_badges (grant_sequence ops w))"
    using assms by (rule grant_sequence_inv)
  have pass: "one_record_per_badge (user_badges (snd (badgeWorker d uid' w)))"
    unfolding badgeWorker_loop using assms by (rule evaluation_pass_inv)
  have most: "length [r \<leftarrow> user_badges ?w1. UserBadge.user_id r = uid \<and> badge_name r = b] \<le> 1"
    using inv1 by (rule at_most_one_record)
  have up: "next_outage w = None \<longrightarrow> fst (BadgesRepository_grantBadgeByName uid b w) = Inr ()"
    by (simp add: grant_result)
  have held: "granted (user_badges w) uid b \<longrightarrow> user_badges ?w1 = user_badges w"
    by (simp add: grant_ledger insert_grant_held)
  have twice: "length [r \<leftarrow> user_badges ?w1. UserBadge.user_id r = uid \<and> badge_name r = b] = 1
      \<and> user_badges (snd (BadgesRepository_grantBadgeByName uid b (?w1\<lparr>outages := os\<rparr>)))
          = user_badges ?w1"
    if ok: "fst (BadgesRepository_grantBadgeByName uid b w) = Inr ()"
  proof -
    from ok have "next_outage w = None"
      by (simp add: grant_result split: option.splits)
    then have "user_badges ?w1 = user_badges (insert_grant uid b w)"
      by (simp add: grant_ledger)
    then have g: "granted (user_badges ?w1) uid b"
      by (simp add: granted_after_insert)
    from inv1 g have "length [r \<leftarrow> user_badges ?w1. UserBadge.user_id r = uid \<and> badge_name r = b] = 1"
      by (rule exactly_one_record)
    moreover from g have "insert_grant uid b (?w1\<lparr>outages := os\<rparr>) = ?w1\<lparr>outages := os\<rparr>"
      by (simp add: insert_grant_def)
    then have "user_badges (snd (BadgesRepository_grantBadgeByName uid b (?w1\<lparr>outages := os\<rparr>)))
        = user_badges ?w1"
      by (simp add: grant_ledger)
    ultimately show ?thesis by blast
  qed
  from inv1 seq pass most up held twice show ?thesis by blast
qed

theorem grant_is_idempotent_witness:
  "one_record_per_badge (user_badges held_world)
   \<and> granted (user_badges held_world) ''cy'' ''Mindful Momentum''
   \<and> next_outage held_world = None
   \<and> fst (BadgesRepository_grantBadgeByName ''cy'' ''Mindful Momentum'' held_world) = Inr ()
   \<and> user_badges (snd (BadgesRepository_grantBadgeByName ''cy'' ''Mindful Momentum'' held_world))
       = user_badges held_world
   \<and> length [r \<leftarrow> user_badges (snd (BadgesRepository_grantBadgeByName ''cy'' ''Mindful Momentum'' held_world)).
               UserBadge.user_id r = ''cy'' \<and> badge_name r = ''Mindful Momentum''] = 1
   \<and> one_record_per_badge (user_badges (grant_sequence
        [(''cy'', ''Mindful Momentum''), (''ana'', ''Mindful Momentum''), (''cy'', ''Mindful Momentum'')]
        held_world))"
proof -
  have inv: "one_record_per_badge (user_badges held_world)"
    by code_simp
  have g: "granted (user_badges held_world) ''cy'' ''Mindful Momentum''"
    by code_simp
  have up: "next_outage held_world = None"
    by code_simp
  note inst = grant_is_idempotent[OF inv, where uid = "''cy''" and b = "''Mindful Momentum''"
      and os = "[]" and d = Journal and uid' = "''cy''"
      and ops = "[(''cy'', ''Mindful Momentum''), (''ana'', ''Mindful Momentum''), (''cy'', ''Mindful Momentum'')]"]
  from inst up have ok: "fst (BadgesRepository_grantBadgeByName ''cy'' ''Mindful Momentum'' held_world) = Inr ()"
    by blast
  from inst g ok inv up show ?thesis
    by blast
qed

section \<open>Theorems about the controller\<close>

lemma get_property_not_null:
  "payload \<noteq> JNull \<Longrightarrow> \<exists>v. get_property payload name = Inr v"
  by (cases payload) simp_all

lemma handleBadgeAwarding_decoded:
  assumes "message envelope = Some msg" and "data msg = Some d" and "d \<noteq> []"
    and "JSON_parse rt (Buffer_from_base64 rt d) = Inr payload"
  shows "handleBadgeAwarding rt service (Some envelope) w = handle_payload service payload w"
  using assms by (simp add: handleBadgeAwarding_def)

text \<open>
  Every decoded payload other than \<open>null\<close> whose event type is not one of the four known
  values, or that has no \<open>userId\<close>, is answered with 400, unless both fields are truthy
  and one of them cannot be converted to a string for the log line. It reaches no worker:
  the state is returned as it was, whatever the service does when invoked.
\<close>

lemma rejects_unknown_or_incomplete:
  assumes "get_property payload ''eventType'' = Inr eventType"
    and "get_property payload ''userId'' = Inr userId"
    and "eventType \<notin> known_event_types \<or> userId = None"
    and "\<not> interpolation_throws eventType" and "\<not> interpolation_throws userId"
  shows "\<exists>body. handle_payload service payload w = (Response 400 body, w)"
proof (cases "truthy eventType \<and> truthy userId")
  case False
  with assms(1,2) show ?thesis
    by (cases userId) (auto simp: handle_payload_def)
next
  case True
  with assms(3) have "eventType \<notin> known_event_types" by auto
  then have
    "eventType \<noteq> Some (JStr ''JOURNAL_ENTRY_CREATED'')"
    "eventType \<noteq> Some (JStr ''FLIP_FEEL_ENTRY_CREATED'')"
    "eventType \<noteq> Some (JStr ''MOOD_CHECKIN_CREATED'')"
    "eventType \<noteq> Some (JStr ''GRATITUDE_ENTRY_CREATED'')"
    by (auto simp: known_event_types_def)
  with True assms(1,2,4,5) show ?thesis
    by (cases userId) (simp_all add: handle_payload_def)
qed

text \<open>
  No payload that is \<open>null\<close>, has an event type outside the four known values or has no
  \<open>userId\<close> reaches a worker, and the answer is 400 or 500.
\<close>

lemma never_reaches_worker:
  assumes "payload = JNull \<or>
      (\<exists>eventType userId. get_property payload ''eventType'' = Inr eventType
         \<and> get_property payload ''userId'' = Inr userId
         \<and> (eventType \<notin> known_event_types \<or> userId = None))"
  shows "snd (handle_payload service payload w) = w
     \<and> (\<exists>body. fst (handle_payload service payload w) = Response 400 body
               \<or> fst (handle_payload service payload w) = Response 500 body)"
proof (cases "payload = JNull")
  case True
  then show ?thesis by (simp add: handle_payload_def internal_error_def)
next
  case False
  with assms obtain eventType userId where p:
    "get_property payload ''eventType'' = Inr eventType"
    "get_property payload ''userId'' = Inr userId"
    "eventType \<notin> known_event_types \<or> userId = None"
    by blast
  show ?thesis
  proof (cases "truthy eventType \<and> truthy userId
      \<and> (interpolation_throws eventType \<or> interpolation_throws userId)")
    case True
    with p(1,2) show ?thesis
      by (cases userId) (auto simp: handle_payload_def internal_error_def)
  next
    case ok: False
    show ?thesis
    proof (cases "truthy eventType \<and> truthy userId")
      case True
      with ok have "\<not> interpolation_throws eventType" "\<not> interpolation_throws userId" by auto
      from rejects_unknown_or_incomplete[OF p this] show ?thesis by (metis fst_conv snd_conv)
    next
      case False
      with p(1,2) show ?thesis
        by (cases userId) (auto simp: handle_payload_def)
    qed
  qed
qed

lemma unprintable_event_type_answered_500:
  "handle_payload service
     (JObj [(''eventType'', JObj [(''toString'', JNum 0)]), (''userId'', JStr ''ana'')]) w
     = (Response 500 (ErrorText ''Cannot convert object to primitive value''), w)"
  by (simp add: handle_payload_def interpolation_throws_def internal_error_def)

text \<open>
  Claim C9. No payload with an event type outside the four known values or without an
  \<open>eventType\<close> or \<open>userId\<close> reaches a worker (lemma \<open>never_reaches_worker\<close>), and the
  answer is 400 for all of them that can be read and logged (lemma
  \<open>rejects_unknown_or_incomplete\<close>). A message whose data decodes to the JSON value
  \<open>null\<close> has neither field; reading \<open>payload.eventType\<close> throws, and the \<open>catch\<close> block
  answers 500 instead of 400.
\<close>

theorem null_payload_answered_500:
  "handleBadgeAwarding example_runtime counting_service (push ''bnVsbA=='') 0
     = (Response 500 (ErrorText
          (''Cannot read properties of null (reading '' @ [CHR 0x27] @ ''eventType'' @ [CHR 0x27] @ '')'')), 0)"
  by (simp add: handleBadgeAwarding_def push_def example_runtime_def handle_payload_def
      internal_error_def)

text \<open>
  Claim C10. A message whose decoded payload carries the empty string as \<open>userId\<close> is
  answered with 400 and the body of a missing field, as the same payload without its
  \<open>userId\<close> member is, and no worker is invoked (the state is returned as it was, for
  every service), whatever the \<open>eventType\<close>.
\<close>

theorem empty_userId_rejected:
  assumes "message envelope = Some msg" and "data msg = Some d" and "d \<noteq> []"
    and "JSON_parse rt (Buffer_from_base64 rt d) = Inr (JObj members)"
    and "map_of members ''userId'' = Some (JStr [])"
  shows "handleBadgeAwarding rt service (Some envelope) w
           = (Response 400 (ErrorText ''Bad Request: Missing eventType or userId''), w)
       \<and> handle_payload service (JObj [m \<leftarrow> members. fst m \<noteq> ''userId'']) w
           = (Response 400 (ErrorText ''Bad Request: Missing eventType or userId''), w)"
proof -
  have a: "handle_payload service (JObj members) w
      = (Response 400 (ErrorText ''Bad Request: Missing eventType or userId''), w)"
    using assms(5) by (simp add: handle_payload_def)
  have "map_of [m \<leftarrow> members. fst m \<noteq> ''userId''] ''userId'' = None"
    by (auto simp: map_of_eq_None_iff)
  then have b: "handle_payload service (JObj [m \<leftarrow> members. fst m \<noteq> ''userId'']) w
      = (Response 400 (ErrorText ''Bad Request: Missing eventType or userId''), w)"
    by (simp add: handle_payload_def)
  have c: "handleBadgeAwarding rt service (Some envelope) w = handle_payload service (JObj members) w"
    by (rule handleBadgeAwarding_decoded[OF assms(1-4)])
  from a b show ?thesis
    unfolding c by (rule conjI)
qed

theorem empty_userId_rejected_witness:
  "handleBadgeAwarding example_runtime counting_service
      (push ''eyJldmVudFR5cGUiOiJKT1VSTkFMX0VOVFJZX0NSRUFURUQiLCJ1c2VySWQiOiIifQ=='') 0
     = (Response 400 (ErrorText ''Bad Request: Missing eventType or userId''), 0)
   \<and> handleBadgeAwarding example_runtime counting_service
      (push ''eyJldmVudFR5cGUiOiJKT1VSTkFMX0VOVFJZX0NSRUFURUQiLCJ1c2VySWQiOiJhbmEifQ=='') 0
     = (Response 204 NoContent, 1)"
proof -
  let ?d = "''eyJldmVudFR5cGUiOiJKT1VSTkFMX0VOVFJZX0NSRUFURUQiLCJ1c2VySWQiOiIifQ==''"
  let ?members = "[(''eventType'', JStr ''JOURNAL_ENTRY_CREATED''), (''userId'', JStr [])]"
  let ?msg = "\<lparr>data = Some ?d, messageId = Some ''1'', publishTime = None\<rparr>"
  let ?envelope = "\<lparr>message = Some ?msg, subscription = None\<rparr>"
  have m: "message ?envelope = Some ?msg" by simp
  have d: "data ?msg = Some ?d" by simp
  have ne: "?d \<noteq> []" by simp
  have parse: "JSON_parse example_runtime (Buffer_from_base64 example_runtime ?d) = Inr (JObj ?members)"
    by (simp add: example_runtime_def)
  have uid: "map_of ?members ''userId'' = Some (JStr [])" by simp
  from empty_userId_rejected[OF m d ne parse uid, of counting_service 0]
  have "handleBadgeAwarding example_runtime counting_service (push ?d) 0
      = (Response 400 (ErrorText ''Bad Request: Missing eventType or userId''), 0)"
    unfolding push_def by (rule conjunct1)
  moreover have "handleBadgeAwarding example_runtime counting_service
      (push ''eyJldmVudFR5cGUiOiJKT1VSTkFMX0VOVFJZX0NSRUFURUQiLCJ1c2VySWQiOiJhbmEifQ=='') 0
     = (Response 204 NoContent, 1)"
    by (simp add: handleBadgeAwarding_def push_def example_runtime_def handle_payload_def
      run_worker_def counting_service_def interpolation_throws_def)
  ultimately show ?thesis by (rule conjI)
qed

end
